theory Spec2Isabelle
  imports Main
begin

section \<open>Documents: the XML the toolkit reads\<close>

text \<open>
  Every method of \<^verbatim>\<open>ua_clarity_tools.py\<close> works on parsed XML (a BeautifulSoup object) and
  uses four operations of it: \<^verbatim>\<open>find_all\<close>, \<^verbatim>\<open>find\<close>, attribute lookup \<^verbatim>\<open>tag["k"]\<close> and
  \<^verbatim>\<open>.text\<close>. A document is a forest of elements; an element has a name, attributes and
  contents.
\<close>

datatype xml = Tag string "(string \<times> string) list" "xml list" | Text string

type_synonym soup = "xml list"

text \<open>Python exceptions that the modelled methods can end with.\<close>

datatype error =
    AttributeError
  | KeyError
  | TypeError
  | UnboundLocalError
  | RecursionError
  | RuntimeError string
  | TransportError string

text \<open>
  A tag is looked up by its name as written in the document (\<^verbatim>\<open>art:artifact\<close>) or by its
  local name after the namespace prefix (\<^verbatim>\<open>artifact\<close>): the source uses both for the same
  elements.
\<close>

definition local_name :: "string \<Rightarrow> string" where
  "local_name n =
     (case dropWhile (\<lambda>c. c \<noteq> CHR '':'') n of [] \<Rightarrow> n | _ # r \<Rightarrow> r)"

type_synonym matcher = "string \<Rightarrow> (string \<times> string) list \<Rightarrow> bool"

definition by_name :: "string \<Rightarrow> matcher" where
  "by_name q = (\<lambda>n a. n = q \<or> local_name n = q)"

definition by_attr :: "string \<Rightarrow> string \<Rightarrow> matcher" where
  "by_attr k v = (\<lambda>n a. map_of a k = Some v)"

text \<open>\<^verbatim>\<open>find_all\<close>: every descendant element that matches, in document order.\<close>

fun find_all :: "matcher \<Rightarrow> xml list \<Rightarrow> xml list" where
  "find_all P [] = []"
| "find_all P (Text s # ts) = find_all P ts"
| "find_all P (Tag n a cs # ts) =
     (if P n a then [Tag n a cs] else []) @ find_all P cs @ find_all P ts"

text \<open>\<^verbatim>\<open>find\<close>: the first match, or \<^verbatim>\<open>None\<close>.\<close>

definition find_tag :: "matcher \<Rightarrow> xml list \<Rightarrow> xml option" where
  "find_tag P ts = (case find_all P ts of [] \<Rightarrow> None | t # _ \<Rightarrow> Some t)"

text \<open>\<^verbatim>\<open>.text\<close>: all the strings below, concatenated.\<close>

fun text_of :: "xml list \<Rightarrow> string" where
  "text_of [] = []"
| "text_of (Text s # ts) = s @ text_of ts"
| "text_of (Tag n a cs # ts) = text_of cs @ text_of ts"

fun contents :: "xml \<Rightarrow> xml list" where
  "contents (Tag n a cs) = cs"
| "contents (Text s) = []"

definition tag_text :: "xml \<Rightarrow> string" where
  "tag_text t = text_of [t]"

text \<open>\<^verbatim>\<open>tag["k"]\<close> raises KeyError when the attribute is missing.\<close>

fun get_attr :: "xml \<Rightarrow> string \<Rightarrow> error + string" where
  "get_attr (Tag n a cs) k = (case map_of a k of None \<Rightarrow> Inl KeyError | Some v \<Rightarrow> Inr v)"
| "get_attr (Text s) k = Inl TypeError"

text \<open>\<^verbatim>\<open>x.find(...)["k"]\<close>: subscripting \<^verbatim>\<open>None\<close> raises TypeError.\<close>

definition subscript :: "xml option \<Rightarrow> string \<Rightarrow> error + string" where
  "subscript r k = (case r of None \<Rightarrow> Inl TypeError | Some t \<Rightarrow> get_attr t k)"

text \<open>\<^verbatim>\<open>uri.split('?')[0]\<close>\<close>

definition strip_query :: "string \<Rightarrow> string" where
  "strip_query u = takeWhile (\<lambda>c. c \<noteq> CHR ''?'') u"

text \<open>A list comprehension whose element expression can raise: the first raise ends it.\<close>

fun map_err :: "('a \<Rightarrow> error + 'b) \<Rightarrow> 'a list \<Rightarrow> error + 'b list" where
  "map_err f [] = Inr []"
| "map_err f (x # xs) =
     (case f x of
        Inl e \<Rightarrow> Inl e
      | Inr y \<Rightarrow> (case map_err f xs of Inl e \<Rightarrow> Inl e | Inr ys \<Rightarrow> Inr (y # ys)))"

section \<open>The transport\<close>

text \<open>
  \<^verbatim>\<open>self.api.get\<close> belongs to the package \<^verbatim>\<open>ua_clarity_api\<close>; it is a parameter of the
  model. It is called with one URI or with a list of URIs and answers with a document
  (parsed here) or fails.
\<close>

datatype endpoints = Uri string | Uris "string list" | NoUri

type_synonym api = "endpoints \<Rightarrow> string + soup"

definition api_get :: "api \<Rightarrow> endpoints \<Rightarrow> error + soup" where
  "api_get api e = (case api e of Inl m \<Rightarrow> Inl (TransportError m) | Inr s \<Rightarrow> Inr s)"

section \<open>\<^verbatim>\<open>StepTools.get_artifacts\<close>, as \<^verbatim>\<open>get_artifact_map\<close> calls it\<close>

text \<open>
  The dataclass \<^verbatim>\<open>Artifact\<close>. Its first ten fields are the fields of the named tuple
  \<^verbatim>\<open>HashableArtifact\<close> of \<^verbatim>\<open>get_artifact_map\<close>; the last one is the UDF dictionary.
\<close>

record hashable_artifact =
  name :: string
  uri :: string
  art_type :: string
  sample_uri :: string
  container_uri :: "string option"
  container_name :: "string option"
  container_type :: "string option"
  location :: "string option"
  parent_process :: "string option"
  reagent_label :: "string option"

record artifact = hashable_artifact +
  udf :: "string \<rightharpoonup> string"

text \<open>\<^verbatim>\<open>t = x.find(...)\<close> followed by \<^verbatim>\<open>if t: ... t["k"]\<close>.\<close>

definition opt_attr :: "xml option \<Rightarrow> string \<Rightarrow> error + string option" where
  "opt_attr r k =
     (case r of
        None \<Rightarrow> Inr None
      | Some t \<Rightarrow> (case get_attr t k of Inl e \<Rightarrow> Inl e | Inr v \<Rightarrow> Inr (Some v)))"

text \<open>Lines 430-432.\<close>

definition location_of :: "xml list \<Rightarrow> error + string option" where
  "location_of cs =
     (case find_tag (by_name ''location'') cs of
        None \<Rightarrow> Inr None
      | Some loc \<Rightarrow>
          (case find_tag (by_name ''value'') (contents loc) of
             None \<Rightarrow> Inl AttributeError
           | Some v \<Rightarrow> Inr (Some (tag_text v))))"

text \<open>Lines 444-445.\<close>

definition udf_fields_of :: "xml list \<Rightarrow> error + (string \<times> string) list" where
  "udf_fields_of cs =
     map_err (\<lambda>udf_data. case get_attr udf_data ''name'' of
                 Inl e \<Rightarrow> Inl e
               | Inr n \<Rightarrow> Inr (n, tag_text udf_data))
       (find_all (by_name ''udf:field'') cs)"

text \<open>
  Lines 418-445, for one element of the batch answer. The parent process is read into a
  local variable only (lines 439-441), so the field keeps its default \<^verbatim>\<open>None\<close>.
\<close>

definition artifact_of :: "xml \<Rightarrow> error + artifact" where
  "artifact_of artifact_data =
     (let cs = contents artifact_data in
      case find_tag (by_name ''name'') cs of
        None \<Rightarrow> Inl AttributeError
      | Some name_tag \<Rightarrow>
     (case get_attr artifact_data ''uri'' of
        Inl e \<Rightarrow> Inl e
      | Inr u \<Rightarrow>
     (case find_tag (by_name ''type'') cs of
        None \<Rightarrow> Inl AttributeError
      | Some type_tag \<Rightarrow>
     (case subscript (find_tag (by_name ''sample'') cs) ''uri'' of
        Inl e \<Rightarrow> Inl e
      | Inr smp \<Rightarrow>
     (case opt_attr (find_tag (by_name ''reagent-label'') cs) ''name'' of
        Inl e \<Rightarrow> Inl e
      | Inr label \<Rightarrow>
     (case location_of cs of
        Inl e \<Rightarrow> Inl e
      | Inr loc \<Rightarrow>
     (case opt_attr (find_tag (by_name ''container'') cs) ''uri'' of
        Inl e \<Rightarrow> Inl e
      | Inr con \<Rightarrow>
     (case opt_attr (find_tag (by_name ''parent-process'') cs) ''uri'' of
        Inl e \<Rightarrow> Inl e
      | Inr _ \<Rightarrow>
     (case udf_fields_of cs of
        Inl e \<Rightarrow> Inl e
      | Inr udf_pairs \<Rightarrow>
          Inr \<lparr>name = tag_text name_tag, uri = strip_query u, art_type = tag_text type_tag,
               sample_uri = smp, container_uri = con, container_name = None,
               container_type = None, location = loc, parent_process = None,
               reagent_label = label, udf = map_of (rev udf_pairs)\<rparr>)))))))))"

text \<open>Lines 396-407.\<close>

fun art_uris_of :: "string \<Rightarrow> xml list \<Rightarrow> error + string list" where
  "art_uris_of stream [] = Inr []"
| "art_uris_of stream (iomap # rest) =
     (case find_tag (by_name stream) (contents iomap) of
        None \<Rightarrow> art_uris_of stream rest
      | Some target \<Rightarrow>
          if stream = ''output'' then
            (case get_attr target ''output-generation-type'' of
               Inl e \<Rightarrow> Inl e
             | Inr gen \<Rightarrow>
                 if gen = ''PerInput'' then
                   (case get_attr target ''uri'' of
                      Inl e \<Rightarrow> Inl e
                    | Inr u \<Rightarrow>
                        (case art_uris_of stream rest of
                           Inl e \<Rightarrow> Inl e
                         | Inr us \<Rightarrow> Inr (u # us)))
                 else art_uris_of stream rest)
          else
            (case get_attr target ''uri'' of
               Inl e \<Rightarrow> Inl e
             | Inr u \<Rightarrow>
                 (case art_uris_of stream rest of
                    Inl e \<Rightarrow> Inl e
                  | Inr us \<Rightarrow> Inr (u # us))))"

text \<open>
  Lines 379-468 with \<^verbatim>\<open>uri_only=False\<close> and \<^verbatim>\<open>container_info=False\<close>, the only way
  \<^verbatim>\<open>get_artifact_map\<close> calls it.
\<close>

definition get_artifacts :: "api \<Rightarrow> soup \<Rightarrow> string \<Rightarrow> error + artifact list" where
  "get_artifacts api step_soup stream =
     (case art_uris_of stream (find_all (by_name ''input-output-map'') step_soup) of
        Inl e \<Rightarrow> Inl e
      | Inr art_uris \<Rightarrow>
          if art_uris = [] then Inr []
          else
            (case api_get api (Uris art_uris) of
               Inl e \<Rightarrow> Inl e
             | Inr batch_artifacts \<Rightarrow>
                 map_err artifact_of (find_all (by_name ''artifact'') batch_artifacts)))"

section \<open>The IO map builder: \<^verbatim>\<open>StepTools.get_artifact_map\<close>\<close>

text \<open>A key or a value of the map: a URI, or the named tuple of an artifact.\<close>

datatype map_item = UriItem string | ArtItem hashable_artifact

text \<open>
  The map is a Python dictionary from an input to the list of its outputs, kept here in
  insertion order. \<^verbatim>\<open>d.setdefault(k, list())\<close> then \<^verbatim>\<open>d[k].append(v)\<close>:
\<close>

type_synonym artifact_map = "(map_item \<times> map_item list) list"

fun append_at :: "'k \<Rightarrow> 'v \<Rightarrow> ('k \<times> 'v list) list \<Rightarrow> ('k \<times> 'v list) list" where
  "append_at k v [] = [(k, [v])]"
| "append_at k v ((k', vs) # rest) =
     (if k = k' then (k', vs @ [v]) # rest else (k', vs) # append_at k v rest)"

text \<open>Lines 512-516: the dictionary \<^verbatim>\<open>{art.uri: art for art in ...}\<close>.\<close>

definition by_uri :: "artifact list \<Rightarrow> (string \<rightharpoonup> artifact)" where
  "by_uri arts = fold (\<lambda>art m. m(uri art \<mapsto> art)) arts Map.empty"

text \<open>
  The two lookup tables exist only when \<^verbatim>\<open>uri_only\<close> is false (line 510); \<open>None\<close> stands
  for the unbound local variable. Reading \<^verbatim>\<open>table[key]\<close>:
\<close>

definition lookup_art :: "(string \<rightharpoonup> artifact) option \<Rightarrow> string \<Rightarrow> error + artifact" where
  "lookup_art table key =
     (case table of
        None \<Rightarrow> Inl UnboundLocalError
      | Some d \<Rightarrow> (case d key of None \<Rightarrow> Inl KeyError | Some art \<Rightarrow> Inr art))"

text \<open>Lines 547-556 (and 558-567 for the output): the container of one artifact.\<close>

definition enrich ::
  "api \<Rightarrow> (string \<rightharpoonup> artifact) option \<Rightarrow> string \<Rightarrow> error + (string \<rightharpoonup> artifact) option" where
  "enrich api table key =
     (case lookup_art table key of
        Inl e \<Rightarrow> Inl e
      | Inr art \<Rightarrow>
     (case api_get api (case container_uri art of None \<Rightarrow> NoUri | Some c \<Rightarrow> Uri c) of
        Inl e \<Rightarrow> Inl e
      | Inr con_soup \<Rightarrow>
     (case find_tag (by_name ''name'') con_soup of
        None \<Rightarrow> Inl AttributeError
      | Some name_tag \<Rightarrow>
     (case subscript (find_tag (by_name ''type'') con_soup) ''name'' of
        Inl e \<Rightarrow> Inl e
      | Inr con_type \<Rightarrow>
          Inr (map_option
                 (\<lambda>d. d(key \<mapsto> art\<lparr>container_name := Some (tag_text name_tag),
                                     container_type := Some con_type\<rparr>))
                 table)))))"

text \<open>Lines 535-576: the loop over the relations of the step.\<close>

fun map_loop ::
  "api \<Rightarrow> bool \<Rightarrow> bool \<Rightarrow> xml list \<Rightarrow> (string \<rightharpoonup> artifact) option
     \<Rightarrow> (string \<rightharpoonup> artifact) option \<Rightarrow> artifact_map \<Rightarrow> error + artifact_map" where
  "map_loop api uri_only container_info [] input_uri_art output_uri_art artifact_map =
     Inr artifact_map"
| "map_loop api uri_only container_info (io_map # rest) input_uri_art output_uri_art artifact_map =
     (case subscript (find_tag (by_name ''output'') (contents io_map)) ''output-generation-type'' of
        Inl e \<Rightarrow> Inl e
      | Inr gen \<Rightarrow>
          if gen = ''PerInput'' then
            (case subscript (find_tag (by_name ''input'') (contents io_map)) ''uri'' of
               Inl e \<Rightarrow> Inl e
             | Inr input_uri \<Rightarrow>
            (case subscript (find_tag (by_name ''output'') (contents io_map)) ''uri'' of
               Inl e \<Rightarrow> Inl e
             | Inr output_uri \<Rightarrow>
                 if uri_only \<and> \<not> container_info then
                   map_loop api uri_only container_info rest input_uri_art output_uri_art
                     (append_at (UriItem input_uri) (UriItem output_uri) artifact_map)
                 else
                   (case (if container_info then enrich api input_uri_art input_uri
                          else Inr input_uri_art) of
                      Inl e \<Rightarrow> Inl e
                    | Inr input_uri_art' \<Rightarrow>
                   (case (if container_info then enrich api output_uri_art output_uri
                          else Inr output_uri_art) of
                      Inl e \<Rightarrow> Inl e
                    | Inr output_uri_art' \<Rightarrow>
                   (case lookup_art input_uri_art' input_uri of
                      Inl e \<Rightarrow> Inl e
                    | Inr input_art \<Rightarrow>
                   (case lookup_art output_uri_art' output_uri of
                      Inl e \<Rightarrow> Inl e
                    | Inr output_art \<Rightarrow>
                        map_loop api uri_only container_info rest input_uri_art' output_uri_art'
                          (append_at (ArtItem (hashable_artifact.truncate input_art))
                             (ArtItem (hashable_artifact.truncate output_art)) artifact_map)))))))
          else map_loop api uri_only container_info rest input_uri_art output_uri_art artifact_map)"

text \<open>Lines 497-578.\<close>

definition get_artifact_map :: "api \<Rightarrow> soup \<Rightarrow> bool \<Rightarrow> bool \<Rightarrow> error + artifact_map" where
  "get_artifact_map api step_soup uri_only container_info =
     (case (if \<not> uri_only then
              (case get_artifacts api step_soup ''input'' of
                 Inl e \<Rightarrow> Inl e
               | Inr ins \<Rightarrow>
                   (case get_artifacts api step_soup ''output'' of
                      Inl e \<Rightarrow> Inl e
                    | Inr outs \<Rightarrow> Inr (Some (by_uri ins), Some (by_uri outs))))
            else Inr (None, None)) of
        Inl e \<Rightarrow> Inl e
      | Inr (input_uri_art, output_uri_art) \<Rightarrow>
          map_loop api uri_only container_info (find_all (by_name ''input-output-map'') step_soup)
            input_uri_art output_uri_art [])"

text \<open>The stored (input, output) pairs of a map, one for each output in each list.\<close>

definition entries :: "('k \<times> 'v list) list \<Rightarrow> ('k \<times> 'v) list" where
  "entries m = concat (map (\<lambda>(k, vs). map (Pair k) vs) m)"

text \<open>
  The relations of a step document whose output has the generation kind \<^verbatim>\<open>PerInput\<close>, and
  those of any other kind.
\<close>

definition is_per_input :: "xml \<Rightarrow> bool" where
  "is_per_input io_map =
     (subscript (find_tag (by_name ''output'') (contents io_map)) ''output-generation-type''
        = Inr ''PerInput'')"

definition per_input_relations :: "soup \<Rightarrow> xml list" where
  "per_input_relations step_soup =
     filter is_per_input (find_all (by_name ''input-output-map'') step_soup)"




text \<open>Lines 538-539, in the URI-only mode: the pair stored for one PerInput relation.\<close>

definition uri_pair_of :: "xml \<Rightarrow> error + map_item \<times> map_item" where
  "uri_pair_of io_map =
     (case subscript (find_tag (by_name ''input'') (contents io_map)) ''uri'' of
        Inl e \<Rightarrow> Inl e
      | Inr input_uri \<Rightarrow>
          (case subscript (find_tag (by_name ''output'') (contents io_map)) ''uri'' of
             Inl e \<Rightarrow> Inl e
           | Inr output_uri \<Rightarrow> Inr (UriItem input_uri, UriItem output_uri)))"


section \<open>Field typing: the loop body of \<^verbatim>\<open>StepTools.set_artifact_udf\<close>\<close>

text \<open>
  A UDF value is any Python object. The source asks three questions of it:
  \<^verbatim>\<open>isinstance(v, bool)\<close>, \<^verbatim>\<open>isinstance(v, int)\<close> (true of a bool as well) and
  \<^verbatim>\<open>isinstance(v, float)\<close>. Floats and other objects are left abstract.
\<close>

typedecl py_float

typedecl py_object

datatype py_value = PyBool bool | PyInt int | PyFloat py_float | PyStr string | PyObject py_object

fun isinstance_bool :: "py_value \<Rightarrow> bool" where
  "isinstance_bool (PyBool b) = True"
| "isinstance_bool v = False"

fun isinstance_int :: "py_value \<Rightarrow> bool" where
  "isinstance_int (PyBool b) = True"
| "isinstance_int (PyInt i) = True"
| "isinstance_int v = False"

fun isinstance_float :: "py_value \<Rightarrow> bool" where
  "isinstance_float (PyFloat f) = True"
| "isinstance_float v = False"

text \<open>Lines 621-627.\<close>

definition udf_type_of :: "py_value \<Rightarrow> string" where
  "udf_type_of v =
     (if isinstance_bool v then ''Boolean''
      else if isinstance_int v \<or> isinstance_float v then ''Numeric''
      else ''String'')"

text \<open>
  \<^verbatim>\<open>target.string = s\<close> on the first element that matches: its contents become the one
  string. \<open>None\<close> when nothing matches.
\<close>

fun set_string_first :: "matcher \<Rightarrow> string \<Rightarrow> xml list \<Rightarrow> xml list option" where
  "set_string_first P s [] = None"
| "set_string_first P s (Text t # ts) = map_option ((#) (Text t)) (set_string_first P s ts)"
| "set_string_first P s (Tag n a cs # ts) =
     (if P n a then Some (Tag n a [Text s] # ts)
      else (case set_string_first P s cs of
              Some cs' \<Rightarrow> Some (Tag n a cs' # ts)
            | None \<Rightarrow> map_option ((#) (Tag n a cs)) (set_string_first P s ts)))"

text \<open>
  \<^verbatim>\<open>x.find(...).insert_after(new)\<close>: the new element becomes the next sibling of the first
  match. \<open>None\<close> when nothing matches.
\<close>

fun insert_after_first :: "matcher \<Rightarrow> xml \<Rightarrow> xml list \<Rightarrow> xml list option" where
  "insert_after_first P new [] = None"
| "insert_after_first P new (Text t # ts) = map_option ((#) (Text t)) (insert_after_first P new ts)"
| "insert_after_first P new (Tag n a cs # ts) =
     (if P n a then Some (Tag n a cs # new # ts)
      else (case insert_after_first P new cs of
              Some cs' \<Rightarrow> Some (Tag n a cs' # ts)
            | None \<Rightarrow> map_option ((#) (Tag n a cs)) (insert_after_first P new ts)))"

text \<open>
  Lines 615-636, for one \<^verbatim>\<open>udf\<close> (a name and a value) and the contents of one
  \<^verbatim>\<open>art:artifact\<close> element. \<open>str\<close> is Python's \<^verbatim>\<open>str()\<close>.
\<close>

definition set_udf ::
  "(py_value \<Rightarrow> string) \<Rightarrow> xml list \<Rightarrow> string \<times> py_value \<Rightarrow> error + xml list" where
  "set_udf str art a_udf =
     (case find_tag (by_attr ''name'' (fst a_udf)) art of
        Some target_udf \<Rightarrow>
          (case set_string_first (by_attr ''name'' (fst a_udf)) (str (snd a_udf)) art of
             Some art' \<Rightarrow> Inr art'
           | None \<Rightarrow> Inr art)
      | None \<Rightarrow>
          (case insert_after_first (by_name ''sample'')
                  (Tag ''udf:field'' [(''name'', fst a_udf), (''type'', udf_type_of (snd a_udf))]
                     [Text (str (snd a_udf))]) art of
             None \<Rightarrow> Inl AttributeError
           | Some art' \<Rightarrow> Inr art'))"

text \<open>Lines 614-636: the loop over the values given for one artifact.\<close>

fun set_udfs ::
  "(py_value \<Rightarrow> string) \<Rightarrow> xml list \<Rightarrow> (string \<times> py_value) list \<Rightarrow> error + xml list" where
  "set_udfs str art [] = Inr art"
| "set_udfs str art (a_udf # udfs) =
     (case set_udf str art a_udf of Inl e \<Rightarrow> Inl e | Inr art' \<Rightarrow> set_udfs str art' udfs)"

section \<open>The lineage resolver: \<^verbatim>\<open>StepTools.get_artifacts_previous_step\<close>\<close>

datatype previous_step_artifact =
  PreviousStepArtifact (uri: string) (art_type: string) (generation_type: string)

text \<open>
  The \<^verbatim>\<open>results\<close> dictionary maps an originating artifact URI (or the key \<^verbatim>\<open>shared\<close>) to a
  list of ancestors. As a caller reads it, it is a map from keys to lists:
\<close>

type_synonym results = "string \<rightharpoonup> previous_step_artifact list"

text \<open>
  The values are list objects, and one object can sit under several keys: line 754 stores
  the list that the index holds for a sample under every artifact of that sample, and
  line 764 appends in place to whatever list sits under \<^verbatim>\<open>shared\<close>. So each value is kept
  with the identity of its list object. A list made at the match step of the current call
  is named by what made it: the index entry of a sample (line 749), or the
  \<^verbatim>\<open>setdefault\<close> of line 764. A list that an earlier call left in the dictionary is
  \<open>Earlier\<close> of the name it had then, so that it is never taken for a new one.
\<close>

datatype list_object = IndexList string | SharedList | Earlier list_object

type_synonym results_dict = "string \<rightharpoonup> list_object \<times> previous_step_artifact list"

text \<open>What a caller reads in the dictionary.\<close>

definition as_read :: "results_dict \<Rightarrow> results" where
  "as_read results = (\<lambda>k. map_option snd (results k))"

text \<open>The dictionary as a later call finds it: the same lists, all of them from before.\<close>

definition from_before :: "results_dict \<Rightarrow> results_dict" where
  "from_before results = (\<lambda>k. map_option (\<lambda>(ob, l). (Earlier ob, l)) (results k))"

text \<open>\<^verbatim>\<open>l.append(art)\<close> on a list object: the new element shows under every key that holds it.\<close>

definition append_to ::
  "list_object \<Rightarrow> previous_step_artifact \<Rightarrow> results_dict \<Rightarrow> results_dict" where
  "append_to ob art results =
     (\<lambda>k. map_option (\<lambda>(ob', l). if ob' = ob then (ob', l @ [art]) else (ob', l)) (results k))"

text \<open>
  The iteration order of a Python set of strings is not fixed by the language: it is the
  parameter \<open>ord\<close>, from the elements in insertion order to the order of iteration.
\<close>

type_synonym set_order = "string list \<Rightarrow> string list"

definition iterates_the_set :: "set_order \<Rightarrow> bool" where
  "iterates_the_set ord = (\<forall>xs. set (ord xs) = set xs \<and> distinct (ord xs))"

text \<open>Lines 684-687: the step name, from \<^verbatim>\<open>configuration\<close> or else from \<^verbatim>\<open>type\<close>.\<close>

definition step_name_of :: "soup \<Rightarrow> error + string" where
  "step_name_of step_soup =
     (case find_tag (by_name ''configuration'') step_soup of
        Some t \<Rightarrow> Inr (tag_text t)
      | None \<Rightarrow>
          (case find_tag (by_name ''type'') step_soup of
             Some t \<Rightarrow> Inr (tag_text t)
           | None \<Rightarrow> Inl AttributeError))"

text \<open>Lines 691-692.\<close>

definition input_uris_of :: "soup \<Rightarrow> error + string list" where
  "input_uris_of step_soup =
     map_err (\<lambda>art. case get_attr art ''uri'' of Inl e \<Rightarrow> Inl e | Inr u \<Rightarrow> Inr (strip_query u))
       (find_all (by_name ''input'') step_soup)"

text \<open>Lines 697-699: the elements of the set comprehension, in insertion order.\<close>

definition prev_steps_of :: "soup \<Rightarrow> error + string list" where
  "prev_steps_of all_input_soup =
     map_err (\<lambda>tag. get_attr tag ''uri'') (find_all (by_name ''parent-process'') all_input_soup)"

definition history_message :: "string \<Rightarrow> string" where
  "history_message step_name =
     ''The target_step is not in one or more of your art_smp_uris histories. The earliest step is ''
       @ step_name"

definition misaligned_message :: "string \<Rightarrow> string" where
  "misaligned_message initial_art_uri =
     ''The artifact '' @ initial_art_uri
       @ '' did not run at the same time as the other samples passed in.''"

text \<open>Lines 721-724: what is read from one relation of the step.\<close>

definition relation_of :: "string \<Rightarrow> xml \<Rightarrow> error + previous_step_artifact" where
  "relation_of stream iomap =
     (case subscript (find_tag (by_name stream) (contents iomap)) ''uri'' of
        Inl e \<Rightarrow> Inl e
      | Inr u \<Rightarrow>
     (case subscript (find_tag (by_name ''output'') (contents iomap)) ''output-type'' of
        Inl e \<Rightarrow> Inl e
      | Inr ty \<Rightarrow>
     (case subscript (find_tag (by_name ''output'') (contents iomap)) ''output-generation-type'' of
        Inl e \<Rightarrow> Inl e
      | Inr gen \<Rightarrow> Inr (PreviousStepArtifact (strip_query u) ty gen))))"

text \<open>Lines 719-736: the relations that are kept, PerInput ResultFiles being skipped.\<close>

fun target_arts_of :: "string \<Rightarrow> xml list \<Rightarrow> error + previous_step_artifact list" where
  "target_arts_of stream [] = Inr []"
| "target_arts_of stream (iomap # rest) =
     (case relation_of stream iomap of
        Inl e \<Rightarrow> Inl e
      | Inr art \<Rightarrow>
          if generation_type art = ''PerInput'' \<and> art_type art = ''ResultFile''
          then target_arts_of stream rest
          else (case target_arts_of stream rest of
                  Inl e \<Rightarrow> Inl e
                | Inr ts \<Rightarrow> Inr (art # ts)))"

text \<open>Lines 745-749, the inner loop for one hydrated artifact.\<close>

type_synonym sample_index = "string \<rightharpoonup> previous_step_artifact list"

fun index_art ::
  "xml \<Rightarrow> previous_step_artifact list \<Rightarrow> sample_index \<Rightarrow> error + sample_index" where
  "index_art art [] m = Inr m"
| "index_art art (target_art # rest) m =
     (case get_attr art ''uri'' of
        Inl e \<Rightarrow> Inl e
      | Inr u \<Rightarrow>
          if strip_query u = uri target_art then
            (case subscript (find_tag (by_name ''sample'') (contents art)) ''uri'' of
               Inl e \<Rightarrow> Inl e
             | Inr s \<Rightarrow>
                 index_art art rest
                   (m(s \<mapsto> (case m s of None \<Rightarrow> [] | Some l \<Rightarrow> l) @ [target_art])))
          else index_art art rest m)"

text \<open>Lines 745-749, the outer loop.\<close>

fun index_arts ::
  "xml list \<Rightarrow> previous_step_artifact list \<Rightarrow> sample_index \<Rightarrow> error + sample_index" where
  "index_arts [] target_arts m = Inr m"
| "index_arts (art # arts) target_arts m =
     (case index_art art target_arts m of
        Inl e \<Rightarrow> Inl e
      | Inr m' \<Rightarrow> index_arts arts target_arts m')"

text \<open>
  Lines 752-758. The dictionary is updated in place, so the keys written before a raise
  stay written: the function returns the dictionary as it is left.
\<close>

fun add_results ::
  "(string \<times> string) list \<Rightarrow> sample_index \<Rightarrow> results_dict \<Rightarrow> error option \<times> results_dict" where
  "add_results [] target_smp_arts results = (None, results)"
| "add_results ((initial_art_uri, initial_smp_uri) # rest) target_smp_arts results =
     (case target_smp_arts initial_smp_uri of
        None \<Rightarrow> (Some (RuntimeError (misaligned_message initial_art_uri)), results)
      | Some l \<Rightarrow>
          add_results rest target_smp_arts
            (results(initial_art_uri \<mapsto> (IndexList initial_smp_uri, l))))"

text \<open>
  Lines 762-764: \<^verbatim>\<open>results.setdefault("shared", []).append(art)\<close>. The new list is made
  only when the key is missing; otherwise the list already there gets the element.
\<close>

fun add_shared :: "previous_step_artifact list \<Rightarrow> results_dict \<Rightarrow> results_dict" where
  "add_shared [] results = results"
| "add_shared (art # rest) results =
     add_shared rest
       (if art_type art = ''ResultFile'' then
          (case results ''shared'' of
             None \<Rightarrow> results(''shared'' \<mapsto> (SharedList, [art]))
           | Some (ob, l) \<Rightarrow> append_to ob art results)
        else results)"

text \<open>
  The outcome of a call: an exception, \<^verbatim>\<open>None\<close> (the body ends without a
  \<^verbatim>\<open>return\<close>), or the dictionary, as the caller reads it when the call returns.
\<close>

type_synonym outcome = "error + results option"

text \<open>Lines 719-749: the kept relations and the index from sample URI to ancestors.\<close>

definition match_index ::
  "api \<Rightarrow> string \<Rightarrow> soup \<Rightarrow> error + previous_step_artifact list \<times> sample_index" where
  "match_index api stream step_soup =
     (case target_arts_of stream (find_all (by_name ''input-output-map'') step_soup) of
        Inl e \<Rightarrow> Inl e
      | Inr target_arts \<Rightarrow>
     (case api_get api (Uris (map uri target_arts)) of
        Inl e \<Rightarrow> Inl e
      | Inr all_target_soup \<Rightarrow>
     (case index_arts (find_all (by_name ''art:artifact'') all_target_soup) target_arts Map.empty of
        Inl e \<Rightarrow> Inl e
      | Inr target_smp_arts \<Rightarrow> Inr (target_arts, target_smp_arts))))"

text \<open>Lines 717-765: the branch taken at the step named \<^verbatim>\<open>dest_step\<close>.\<close>

definition match_step ::
  "api \<Rightarrow> string \<Rightarrow> (string \<times> string) list \<Rightarrow> soup \<Rightarrow> results_dict
     \<Rightarrow> outcome \<times> results_dict" where
  "match_step api stream art_smp_uris step_soup results =
     (case match_index api stream step_soup of
        Inl e \<Rightarrow> (Inl e, results)
      | Inr (target_arts, target_smp_arts) \<Rightarrow>
     (case add_results art_smp_uris target_smp_arts (from_before results) of
        (Some e, results') \<Rightarrow> (Inl e, results')
      | (None, results') \<Rightarrow>
          (Inr (Some (as_read (add_shared target_arts results'))),
           add_shared target_arts results')))"

text \<open>
  Lines 649-765. The first argument bounds the depth of the recursion, as the
  interpreter's recursion limit does: at depth zero the call raises RecursionError. The
  last argument is the \<^verbatim>\<open>results\<close> dictionary as passed in; the second component of the
  value is that same dictionary after the call.
\<close>

fun get_artifacts_previous_step ::
  "nat \<Rightarrow> api \<Rightarrow> set_order \<Rightarrow> string \<Rightarrow> string \<Rightarrow> (string \<times> string) list \<Rightarrow> soup
     \<Rightarrow> results_dict \<Rightarrow> outcome \<times> results_dict" where
  "get_artifacts_previous_step 0 api ord dest_step stream art_smp_uris step_soup results =
     (Inl RecursionError, results)"
| "get_artifacts_previous_step (Suc depth) api ord dest_step stream art_smp_uris step_soup results =
     (case step_name_of step_soup of
        Inl e \<Rightarrow> (Inl e, results)
      | Inr step_name \<Rightarrow>
          if step_name \<noteq> dest_step then
            (case input_uris_of step_soup of
               Inl e \<Rightarrow> (Inl e, results)
             | Inr input_uris \<Rightarrow>
            (case api_get api (Uris input_uris) of
               Inl e \<Rightarrow> (Inl e, results)
             | Inr all_input_soup \<Rightarrow>
            (case prev_steps_of all_input_soup of
               Inl AttributeError \<Rightarrow> (Inl (RuntimeError (history_message step_name)), results)
             | Inl e \<Rightarrow> (Inl e, results)
             | Inr prev_steps \<Rightarrow>
                 (case ord prev_steps of
                    [] \<Rightarrow> (Inr None, results)
                  | step_uri # _ \<Rightarrow>
                      (case api_get api (Uri step_uri) of
                         Inl e \<Rightarrow> (Inl e, results)
                       | Inr step_soup' \<Rightarrow>
                           get_artifacts_previous_step depth api ord dest_step stream
                             art_smp_uris step_soup' results)))))
          else match_step api stream art_smp_uris step_soup results)"

text \<open>
  The default value of \<^verbatim>\<open>results\<close> (line 650) is one dictionary, made when the method is
  defined and used by every call that leaves the argument out. Two such calls in
  succession, the first one being the first ever: the second works on the dictionary as
  the first left it.
\<close>

definition two_default_calls ::
  "nat \<Rightarrow> api \<Rightarrow> set_order \<Rightarrow> string \<Rightarrow> string \<Rightarrow> (string \<times> string) list \<Rightarrow> soup
     \<Rightarrow> outcome \<times> outcome" where
  "two_default_calls depth api ord dest_step stream art_smp_uris step_soup =
     (case get_artifacts_previous_step depth api ord dest_step stream art_smp_uris step_soup
             Map.empty of
        (first, default_results) \<Rightarrow>
          (first,
           fst (get_artifacts_previous_step depth api ord dest_step stream art_smp_uris step_soup
                  default_results)))"

text \<open>The list under the key \<^verbatim>\<open>shared\<close>, empty when the key is missing.\<close>

definition shared_list :: "results \<Rightarrow> previous_step_artifact list" where
  "shared_list results = (case results ''shared'' of None \<Rightarrow> [] | Some l \<Rightarrow> l)"

section \<open>A small laboratory\<close>

text \<open>
  Documents for the concrete runs below. An artifact has a name, a type, a sample and,
  unless it is a submitted sample's own artifact, the process that made it.
\<close>

definition artifact_doc :: "string \<Rightarrow> string \<Rightarrow> string \<Rightarrow> string option \<Rightarrow> xml" where
  "artifact_doc u ty s pp =
     Tag ''art:artifact'' [(''uri'', u)]
       ([Tag ''name'' [] [Text u], Tag ''type'' [] [Text ty]] @
        (case pp of None \<Rightarrow> [] | Some p \<Rightarrow> [Tag ''parent-process'' [(''uri'', p)] []]) @
        [Tag ''sample'' [(''uri'', s)] []])"

definition io_map :: "string \<Rightarrow> string \<Rightarrow> string \<Rightarrow> string \<Rightarrow> xml" where
  "io_map i out ty gen =
     Tag ''input-output-map'' []
       [Tag ''input'' [(''uri'', i)] [],
        Tag ''output'' [(''uri'', out), (''output-generation-type'', gen), (''output-type'', ty)] []]"

text \<open>
  A transport over a store of documents: a batch answer holds the stored documents of the
  distinct URIs asked for, and a URI that does not resolve is left out.
\<close>

definition store_api :: "(string \<rightharpoonup> xml) \<Rightarrow> api" where
  "store_api store e =
     (case e of
        Uris us \<Rightarrow> Inr [Tag ''art:details'' [] (List.map_filter store (remdups us))]
      | Uri u \<Rightarrow> (case store u of None \<Rightarrow> Inl ''404'' | Some d \<Rightarrow> Inr [d])
      | NoUri \<Rightarrow> Inl ''400'')"

text \<open>
  Step S: inputs A1 and A2, one PerInput Analyte for each (O1, O2) and one PerAllInputs
  ResultFile R for both, which the step lists once under each input.
\<close>

definition relations_S :: "xml list" where
  "relations_S =
     [io_map ''A1'' ''O1'' ''Analyte'' ''PerInput'',
      io_map ''A2'' ''O2'' ''Analyte'' ''PerInput'',
      io_map ''A1'' ''R'' ''ResultFile'' ''PerAllInputs'',
      io_map ''A2'' ''R'' ''ResultFile'' ''PerAllInputs'']"

definition step_S :: soup where
  "step_S =
     [Tag ''stp:details'' []
        [Tag ''configuration'' [] [Text ''S''], Tag ''input-output-maps'' [] relations_S]]"

text \<open>
  The history: S (process PS) made O1, O2 and R from A1 and A2; Q (process PQ) made B1
  from O1 alone; C (process PC) took B1 and O2 together and made C1 and C2.
\<close>

definition process_Q :: xml where
  "process_Q =
     Tag ''prc:process'' []
       [Tag ''type'' [] [Text ''Q''],
        io_map ''O1?state=7'' ''B1?state=8'' ''Analyte'' ''PerInput'']"

definition process_C :: xml where
  "process_C =
     Tag ''prc:process'' []
       [Tag ''type'' [] [Text ''C''],
        io_map ''B1?state=9'' ''C1'' ''Analyte'' ''PerInput'',
        io_map ''O2?state=9'' ''C2'' ''Analyte'' ''PerInput'']"

definition step_C :: soup where
  "step_C = [process_C]"

text \<open>
  Sample 1 then went through S a second time, on its own: process PS2 made O1r from O1.
  Step D (process PD) took O1r and O2 together and made D1 and D2.
\<close>

definition process_S2 :: xml where
  "process_S2 =
     Tag ''prc:process'' []
       [Tag ''type'' [] [Text ''S''],
        io_map ''O1'' ''O1r'' ''Analyte'' ''PerInput'']"

definition process_D :: xml where
  "process_D =
     Tag ''prc:process'' []
       [Tag ''type'' [] [Text ''D''],
        io_map ''O1r'' ''D1'' ''Analyte'' ''PerInput'',
        io_map ''O2'' ''D2'' ''Analyte'' ''PerInput'']"

definition step_D :: soup where
  "step_D = [process_D]"

text \<open>
  Another step, P, pools A1 and A2 into the one Analyte P, writes a ResultFile F1 for A1
  alone and a ResultFile L for a reagent label.
\<close>

definition step_P :: soup where
  "step_P =
     [Tag ''stp:details'' []
        [Tag ''configuration'' [] [Text ''P''],
         Tag ''input-output-maps'' []
           [io_map ''A1'' ''P'' ''Analyte'' ''PerAllInputs'',
            io_map ''A2'' ''P'' ''Analyte'' ''PerAllInputs'',
            io_map ''A1'' ''F1'' ''ResultFile'' ''PerInput'',
            io_map ''A1'' ''L'' ''ResultFile'' ''PerReagentLabel'']]]"

text \<open>What the resolver returns in the runs below.\<close>

definition ancestors_S :: results where
  "ancestors_S =
     [''O1'' \<mapsto> [PreviousStepArtifact ''A1'' ''Analyte'' ''PerInput'',
                   PreviousStepArtifact ''A1'' ''ResultFile'' ''PerAllInputs''],
      ''O2'' \<mapsto> [PreviousStepArtifact ''A2'' ''Analyte'' ''PerInput'',
                   PreviousStepArtifact ''A2'' ''ResultFile'' ''PerAllInputs''],
      ''shared'' \<mapsto> [PreviousStepArtifact ''A1'' ''ResultFile'' ''PerAllInputs'',
                       PreviousStepArtifact ''A2'' ''ResultFile'' ''PerAllInputs'']]"

definition ancestors_C :: results where
  "ancestors_C =
     [''C1'' \<mapsto> [PreviousStepArtifact ''O1'' ''Analyte'' ''PerInput'',
                   PreviousStepArtifact ''R'' ''ResultFile'' ''PerAllInputs'',
                   PreviousStepArtifact ''R'' ''ResultFile'' ''PerAllInputs''],
      ''C2'' \<mapsto> [PreviousStepArtifact ''O2'' ''Analyte'' ''PerInput''],
      ''shared'' \<mapsto> [PreviousStepArtifact ''R'' ''ResultFile'' ''PerAllInputs'',
                       PreviousStepArtifact ''R'' ''ResultFile'' ''PerAllInputs'']]"

definition ancestors_D :: results where
  "ancestors_D =
     [''D1'' \<mapsto> [PreviousStepArtifact ''O1'' ''Analyte'' ''PerInput'',
                   PreviousStepArtifact ''R'' ''ResultFile'' ''PerAllInputs'',
                   PreviousStepArtifact ''R'' ''ResultFile'' ''PerAllInputs''],
      ''D2'' \<mapsto> [PreviousStepArtifact ''O2'' ''Analyte'' ''PerInput''],
      ''shared'' \<mapsto> [PreviousStepArtifact ''R'' ''ResultFile'' ''PerAllInputs'',
                       PreviousStepArtifact ''R'' ''ResultFile'' ''PerAllInputs'']]"

definition ancestors_P :: results where
  "ancestors_P =
     [''X'' \<mapsto> [PreviousStepArtifact ''P'' ''Analyte'' ''PerAllInputs'',
                  PreviousStepArtifact ''P'' ''Analyte'' ''PerAllInputs'',
                  PreviousStepArtifact ''L'' ''ResultFile'' ''PerReagentLabel''],
      ''shared'' \<mapsto> [PreviousStepArtifact ''L'' ''ResultFile'' ''PerReagentLabel'']]"

definition lab :: "string \<rightharpoonup> xml" where
  "lab = map_of
     [(''A1'', artifact_doc ''A1'' ''Analyte'' ''sample1'' None),
      (''A2'', artifact_doc ''A2'' ''Analyte'' ''sample2'' None),
      (''O1'', artifact_doc ''O1'' ''Analyte'' ''sample1'' (Some ''PS'')),
      (''O2'', artifact_doc ''O2'' ''Analyte'' ''sample2'' (Some ''PS'')),
      (''R'', artifact_doc ''R'' ''ResultFile'' ''sample1'' (Some ''PS'')),
      (''B1'', artifact_doc ''B1'' ''Analyte'' ''sample1'' (Some ''PQ'')),
      (''O1r'', artifact_doc ''O1r'' ''Analyte'' ''sample1'' (Some ''PS2'')),
      (''P'', artifact_doc ''P'' ''Analyte'' ''sample1'' (Some ''PP'')),
      (''F1'', artifact_doc ''F1'' ''ResultFile'' ''sample1'' (Some ''PP'')),
      (''L'', artifact_doc ''L'' ''ResultFile'' ''sample1'' (Some ''PP'')),
      (''PS'', Tag ''prc:process'' [] (Tag ''type'' [] [Text ''S''] # relations_S)),
      (''PQ'', process_Q),
      (''PC'', process_C),
      (''PS2'', process_S2)]"



text \<open>
  The contents of one artifact record with a numeric field, and Python's \<^verbatim>\<open>str\<close> on the
  values used below (booleans and strings).
\<close>

definition example_art :: "xml list" where
  "example_art =
     [Tag ''name'' [] [Text ''A1''],
      Tag ''sample'' [(''uri'', ''sample1'')] [],
      Tag ''udf:field'' [(''name'', ''Conc''), (''type'', ''Numeric'')] [Text ''1.5'']]"

text \<open>
  An artifact record with a reagent label called Index, and the same record with a field
  of that name after the label, where Clarity writes the fields.
\<close>

definition labelled_art :: "xml list" where
  "labelled_art =
     [Tag ''name'' [] [Text ''A1''],
      Tag ''sample'' [(''uri'', ''sample1'')] [],
      Tag ''reagent-label'' [(''name'', ''Index'')] []]"

definition labelled_art_with_field :: "xml list" where
  "labelled_art_with_field =
     labelled_art @ [Tag ''udf:field'' [(''name'', ''Index''), (''type'', ''String'')] [Text ''old'']]"

definition example_str :: "py_value \<Rightarrow> string" where
  "example_str v =
     (case v of PyBool b \<Rightarrow> (if b then ''True'' else ''False'') | PyStr s \<Rightarrow> s | _ \<Rightarrow> [])"

lemmas lab_defs =
  artifact_doc_def io_map_def store_api_def relations_S_def step_S_def process_Q_def
  process_C_def step_C_def process_S2_def process_D_def step_D_def step_P_def lab_def
  List.map_filter_def

lemmas doc_defs =
  find_tag_def by_name_def by_attr_def local_name_def tag_text_def subscript_def
  strip_query_def api_get_def

lemmas resolver_defs =
  step_name_of_def input_uris_of_def prev_steps_of_def relation_of_def match_index_def
  match_step_def as_read_def from_before_def append_to_def

section \<open>Lemmas about the resolver\<close>

lemma get_attr_not_AttributeError: "get_attr t k \<noteq> Inl AttributeError"
  by (cases t) (auto split: option.splits)

lemma map_err_Inl: "map_err f xs = Inl e \<Longrightarrow> \<exists>x \<in> set xs. f x = Inl e"
  by (induction xs) (auto split: sum.splits)

lemma prev_steps_of_not_AttributeError: "prev_steps_of s \<noteq> Inl AttributeError"
  unfolding prev_steps_of_def
  using map_err_Inl get_attr_not_AttributeError by fastforce

lemma add_results_indexed:
  "add_results ps idx res = (None, res') \<Longrightarrow> (a, s) \<in> set ps \<Longrightarrow> idx s \<noteq> None"
  by (induction ps arbitrary: res) (auto split: option.splits)

lemma add_results_dom:
  "add_results ps idx res = (None, res') \<Longrightarrow> dom res' = dom res \<union> fst ` set ps"
proof (induction ps arbitrary: res)
  case Nil
  then show ?case by simp
next
  case (Cons p ps)
  obtain a0 s0 where p: "p = (a0, s0)" by (cases p)
  from Cons.prems p obtain l where
    rest: "add_results ps idx (res(a0 \<mapsto> (IndexList s0, l))) = (None, res')"
    by (auto split: option.splits)
  have "dom (res(a0 \<mapsto> (IndexList s0, l))) = insert a0 (dom res)" by simp
  with Cons.IH[OF rest] have "dom res' = insert a0 (dom res) \<union> fst ` set ps" by (simp only:)
  with p show ?case by auto
qed

lemma add_results_other:
  "k \<notin> fst ` set ps \<Longrightarrow> snd (add_results ps idx res) k = res k"
  by (induction ps arbitrary: res) (auto split: option.splits)

lemma add_results_values:
  "add_results ps idx res = (e, res') \<Longrightarrow> res' k = Some (ob, l)
     \<Longrightarrow> res k = Some (ob, l) \<or> l \<in> ran idx"
proof (induction ps arbitrary: res)
  case Nil
  then show ?case by simp
next
  case (Cons p ps)
  obtain a0 s0 where p: "p = (a0, s0)" by (cases p)
  show ?case
  proof (cases "idx s0")
    case None
    with Cons.prems p show ?thesis by simp
  next
    case (Some l0)
    with Cons.prems(1) p have
      "add_results ps idx (res(a0 \<mapsto> (IndexList s0, l0))) = (e, res')" by simp
    from Cons.IH[OF this Cons.prems(2)] have
      "(res(a0 \<mapsto> (IndexList s0, l0))) k = Some (ob, l) \<or> l \<in> ran idx" .
    then show ?thesis
    proof
      assume h: "(res(a0 \<mapsto> (IndexList s0, l0))) k = Some (ob, l)"
      show ?thesis
      proof (cases "k = a0")
        case True
        with h have "l = l0" by simp
        with Some have "l \<in> ran idx" by (simp add: ranI)
        then show ?thesis ..
      next
        case False
        with h have "res k = Some (ob, l)" by simp
        then show ?thesis ..
      qed
    next
      assume "l \<in> ran idx"
      then show ?thesis ..
    qed
  qed
qed

lemma add_results_error:
  "add_results ps idx res = (Some e, res') \<Longrightarrow>
     \<exists>a s. (a, s) \<in> set ps \<and> idx s = None \<and> e = RuntimeError (misaligned_message a)"
proof (induction ps arbitrary: res)
  case Nil
  then show ?case by simp
next
  case (Cons p ps)
  obtain a0 s0 where p: "p = (a0, s0)" by (cases p)
  show ?case
  proof (cases "idx s0")
    case None
    with Cons.prems p show ?thesis by auto
  next
    case (Some l)
    with Cons.prems p have
      "add_results ps idx (res(a0 \<mapsto> (IndexList s0, l))) = (Some e, res')" by simp
    from Cons.IH[OF this] show ?thesis by auto
  qed
qed

lemma add_results_missing:
  "(a, s) \<in> set ps \<Longrightarrow> idx s = None \<Longrightarrow> \<exists>e. fst (add_results ps idx res) = Some e"
  by (induction ps arbitrary: res) (auto split: option.splits)

lemma dom_as_read: "dom (as_read results) = dom results"
  by (auto simp: as_read_def dom_def)

lemma dom_append_to: "dom (append_to ob art results) = dom results"
  by (auto simp: append_to_def dom_def)

lemma dom_from_before: "dom (from_before results) = dom results"
  by (auto simp: from_before_def dom_def)

lemma as_read_from_before: "as_read (from_before results) = as_read results"
proof
  fix k
  show "as_read (from_before results) k = as_read results k"
    by (cases "results k") (auto simp: as_read_def from_before_def)
qed

lemma from_before_empty: "from_before Map.empty = Map.empty"
  by (simp add: from_before_def)

lemma as_read_Some: "as_read results k = Some l \<longleftrightarrow> (\<exists>ob. results k = Some (ob, l))"
  by (cases "results k") (auto simp: as_read_def)

lemma shared_list_new:
  "shared_list (as_read (results(''shared'' \<mapsto> (ob, l)))) = l"
  by (simp add: shared_list_def as_read_def)

lemma shared_list_append_to:
  "results ''shared'' = Some (ob, l) \<Longrightarrow>
   shared_list (as_read (append_to ob art results)) = shared_list (as_read results) @ [art]"
  by (simp add: shared_list_def as_read_def append_to_def)

lemma shared_list_missing:
  "results ''shared'' = None \<Longrightarrow> shared_list (as_read results) = []"
  by (simp add: shared_list_def as_read_def)

lemma shared_list_add_shared:
  "shared_list (as_read (add_shared tas res)) =
     shared_list (as_read res) @ filter (\<lambda>t. art_type t = ''ResultFile'') tas"
proof (induction tas arbitrary: res)
  case Nil
  show ?case by simp
next
  case (Cons t tas)
  let ?rf = "filter (\<lambda>t. art_type t = ''ResultFile'')"
  show ?case
  proof (cases "art_type t = ''ResultFile''")
    case False
    then have "add_shared (t # tas) res = add_shared tas res" and "?rf (t # tas) = ?rf tas"
      by simp_all
    with Cons.IH[of res] show ?thesis by (simp only:)
  next
    case True
    then have rf: "?rf (t # tas) = t # ?rf tas" by simp
    show ?thesis
    proof (cases "res ''shared''")
      case None
      let ?res = "res(''shared'' \<mapsto> (SharedList, [t]))"
      from True None have "add_shared (t # tas) res = add_shared tas ?res" by simp
      then have "shared_list (as_read (add_shared (t # tas) res)) =
          shared_list (as_read ?res) @ ?rf tas"
        using Cons.IH[of ?res] by (simp only:)
      also have "shared_list (as_read ?res) = [t]" by (rule shared_list_new)
      also have "[t] @ ?rf tas = shared_list (as_read res) @ ?rf (t # tas)"
        using shared_list_missing[of res] None rf by simp
      finally show ?thesis .
    next
      case (Some p)
      obtain ob l where p: "p = (ob, l)" by (cases p)
      let ?res = "append_to ob t res"
      from True Some p have "add_shared (t # tas) res = add_shared tas ?res" by simp
      then have "shared_list (as_read (add_shared (t # tas) res)) =
          shared_list (as_read ?res) @ ?rf tas"
        using Cons.IH[of ?res] by (simp only:)
      also have "shared_list (as_read ?res) = shared_list (as_read res) @ [t]"
        using Some p by (simp add: shared_list_append_to)
      also have "(shared_list (as_read res) @ [t]) @ ?rf tas = shared_list (as_read res) @ ?rf (t # tas)"
        using rf by simp
      finally show ?thesis .
    qed
  qed
qed

lemma add_shared_none:
  "filter (\<lambda>t. art_type t = ''ResultFile'') tas = [] \<Longrightarrow> add_shared tas res = res"
  by (induction tas arbitrary: res) (auto split: if_splits)

lemma add_shared_step_dom:
  "dom results \<subseteq> dom (if art_type t = ''ResultFile'' then
          (case results ''shared'' of
             None \<Rightarrow> results(''shared'' \<mapsto> (SharedList, [t]))
           | Some (ob, l) \<Rightarrow> append_to ob t results)
        else results)"
proof (cases "results ''shared''")
  case None
  then show ?thesis by auto
next
  case (Some p)
  obtain ob l where "p = (ob, l)" by (cases p)
  with Some show ?thesis by (simp add: dom_append_to)
qed

lemma add_shared_dom: "dom results \<subseteq> dom (add_shared tas results)"
proof (induction tas arbitrary: results)
  case Nil
  show ?case by simp
next
  case (Cons t tas)
  note add_shared_step_dom[of results t]
  also have "dom (if art_type t = ''ResultFile'' then
          (case results ''shared'' of
             None \<Rightarrow> results(''shared'' \<mapsto> (SharedList, [t]))
           | Some (ob, l) \<Rightarrow> append_to ob t results)
        else results) \<subseteq> dom (add_shared (t # tas) results)"
    using Cons.IH by simp
  finally show ?case .
qed

lemma append_to_within:
  assumes "\<forall>k ob l. results k = Some (ob, l) \<longrightarrow> set l \<subseteq> A" and "art \<in> A"
  shows "\<forall>k ob l. append_to ob0 art results k = Some (ob, l) \<longrightarrow> set l \<subseteq> A"
proof (intro allI impI)
  fix k ob l
  assume h: "append_to ob0 art results k = Some (ob, l)"
  then obtain ob1 l1 where r: "results k = Some (ob1, l1)"
    by (cases "results k") (auto simp: append_to_def)
  with assms(1) have "set l1 \<subseteq> A" by blast
  moreover from h r have "l = l1 \<or> l = l1 @ [art]"
    by (auto simp: append_to_def split: if_splits)
  ultimately show "set l \<subseteq> A" using assms(2) by auto
qed

lemma add_shared_within:
  "\<forall>k ob l. res k = Some (ob, l) \<longrightarrow> set l \<subseteq> A \<Longrightarrow> set tas \<subseteq> A
     \<Longrightarrow> \<forall>k ob l. add_shared tas res k = Some (ob, l) \<longrightarrow> set l \<subseteq> A"
proof (induction tas arbitrary: res)
  case Nil
  then show ?case by simp
next
  case (Cons t tas)
  have t: "t \<in> A" and tas: "set tas \<subseteq> A" using Cons.prems(2) by simp_all
  show ?case
  proof (cases "art_type t = ''ResultFile''")
    case False
    with Cons.IH[OF Cons.prems(1) tas] show ?thesis by simp
  next
    case True
    show ?thesis
    proof (cases "res ''shared''")
      case None
      have "\<forall>k ob l. (res(''shared'' \<mapsto> (SharedList, [t]))) k = Some (ob, l) \<longrightarrow> set l \<subseteq> A"
      proof (intro allI impI)
        fix k ob l
        assume h: "(res(''shared'' \<mapsto> (SharedList, [t]))) k = Some (ob, l)"
        show "set l \<subseteq> A"
        proof (cases "k = ''shared''")
          case True
          with h t show ?thesis by auto
        next
          case False
          with h have "res k = Some (ob, l)" by simp
          with Cons.prems(1) show ?thesis by blast
        qed
      qed
      note rest = Cons.IH[OF this tas]
      from True None have
        "add_shared (t # tas) res = add_shared tas (res(''shared'' \<mapsto> (SharedList, [t])))"
        by simp
      with rest show ?thesis by (simp only:)
    next
      case (Some p)
      obtain ob0 l0 where p: "p = (ob0, l0)" by (cases p)
      note rest = Cons.IH[OF append_to_within[OF Cons.prems(1) t, of ob0] tas]
      from True Some p have "add_shared (t # tas) res = add_shared tas (append_to ob0 t res)"
        by simp
      with rest show ?thesis by (simp only:)
    qed
  qed
qed

lemma index_art_values:
  "index_art art ts m = Inr m' \<Longrightarrow> \<forall>s l. m s = Some l \<longrightarrow> set l \<subseteq> A \<Longrightarrow> set ts \<subseteq> A
     \<Longrightarrow> \<forall>s l. m' s = Some l \<longrightarrow> set l \<subseteq> A"
proof (induction ts arbitrary: m)
  case Nil
  then show ?case by simp
next
  case (Cons t ts)
  have ts: "set ts \<subseteq> A" and t: "t \<in> A" using Cons.prems(3) by simp_all
  show ?case
  proof (cases "get_attr art ''uri''")
    case (Inl e)
    with Cons.prems(1) show ?thesis by simp
  next
    case (Inr u)
    show ?thesis
    proof (cases "strip_query u = uri t")
      case False
      with Cons.prems(1) Inr have "index_art art ts m = Inr m'" by simp
      from Cons.IH[OF this Cons.prems(2) ts] show ?thesis .
    next
      case True
      with Cons.prems(1) Inr obtain s where
        rec: "index_art art ts (m(s \<mapsto> (case m s of None \<Rightarrow> [] | Some l \<Rightarrow> l) @ [t])) = Inr m'"
        by (cases "subscript (find_tag (by_name ''sample'') (contents art)) ''uri''") simp_all
      have old: "set (case m s of None \<Rightarrow> [] | Some l \<Rightarrow> l) \<subseteq> A"
        using Cons.prems(2) by (cases "m s") simp_all
      have "\<forall>s' l. (m(s \<mapsto> (case m s of None \<Rightarrow> [] | Some l \<Rightarrow> l) @ [t])) s' = Some l
              \<longrightarrow> set l \<subseteq> A"
      proof (intro allI impI)
        fix s' l
        assume h: "(m(s \<mapsto> (case m s of None \<Rightarrow> [] | Some l \<Rightarrow> l) @ [t])) s' = Some l"
        show "set l \<subseteq> A"
        proof (cases "s' = s")
          case True
          with h have "l = (case m s of None \<Rightarrow> [] | Some l \<Rightarrow> l) @ [t]" by simp
          with old t show ?thesis by simp
        next
          case False
          with h have "m s' = Some l" by simp
          with Cons.prems(2) show ?thesis by blast
        qed
      qed
      from Cons.IH[OF rec this ts] show ?thesis .
    qed
  qed
qed

lemma index_arts_values:
  "index_arts arts ts m = Inr m' \<Longrightarrow> \<forall>s l. m s = Some l \<longrightarrow> set l \<subseteq> set ts
     \<Longrightarrow> \<forall>s l. m' s = Some l \<longrightarrow> set l \<subseteq> set ts"
proof (induction arts arbitrary: m)
  case Nil
  then show ?case by simp
next
  case (Cons a arts)
  from Cons.prems(1) obtain m1 where a: "index_art a ts m = Inr m1"
    and rest: "index_arts arts ts m1 = Inr m'"
    by (auto split: sum.splits)
  from index_art_values[OF a Cons.prems(2)] have "\<forall>s l. m1 s = Some l \<longrightarrow> set l \<subseteq> set ts"
    by simp
  from Cons.IH[OF rest this] show ?case .
qed

lemma target_arts_of_filter:
  "target_arts_of stream ios =
     (case map_err (relation_of stream) ios of
        Inl e \<Rightarrow> Inl e
      | Inr rels \<Rightarrow> Inr (filter (\<lambda>t. \<not> (generation_type t = ''PerInput'' \<and> art_type t = ''ResultFile'')) rels))"
  by (induction ios) (auto split: sum.splits)

lemma success_is_match_step:
  "get_artifacts_previous_step depth api ord dest_step stream art_smp_uris step_soup results = (Inr (Some r), r')
   \<Longrightarrow> \<exists>doc. step_name_of doc = Inr dest_step \<and>
         match_step api stream art_smp_uris doc results = (Inr (Some r), r')"
proof (induction depth arbitrary: step_soup)
  case 0
  then show ?case by simp
next
  case (Suc depth)
  from Suc.prems obtain step_name where n: "step_name_of step_soup = Inr step_name"
    by (cases "step_name_of step_soup") auto
  show ?case
  proof (cases "step_name = dest_step")
    case True
    with Suc.prems n show ?thesis by auto
  next
    case False
    from Suc.prems n False obtain input_uris where i: "input_uris_of step_soup = Inr input_uris"
      by (cases "input_uris_of step_soup") auto
    from Suc.prems n False i obtain all_input_soup where
      a: "api_get api (Uris input_uris) = Inr all_input_soup"
      by (cases "api_get api (Uris input_uris)") auto
    from Suc.prems n False i a obtain prev_steps where
      p: "prev_steps_of all_input_soup = Inr prev_steps"
      by (cases "prev_steps_of all_input_soup") (auto split: error.splits)
    from Suc.prems n False i a p obtain step_uri rest where
      o: "ord prev_steps = step_uri # rest"
      by (cases "ord prev_steps") auto
    from Suc.prems n False i a p o obtain step_soup' where
      s: "api_get api (Uri step_uri) = Inr step_soup'"
      by (cases "api_get api (Uri step_uri)") auto
    from Suc.prems n False i a p o s have
      "get_artifacts_previous_step depth api ord dest_step stream art_smp_uris step_soup' results
         = (Inr (Some r), r')"
      by simp
    from Suc.IH[OF this] show ?thesis .
  qed
qed

lemma match_step_success:
  assumes "match_step api stream art_smp_uris doc results = (Inr (Some r), r')"
  obtains target_arts target_smp_arts results1 where
    "match_index api stream doc = Inr (target_arts, target_smp_arts)"
    "add_results art_smp_uris target_smp_arts (from_before results) = (None, results1)"
    "r = as_read (add_shared target_arts results1)" "r' = add_shared target_arts results1"
proof -
  from assms obtain target_arts target_smp_arts where
    mi: "match_index api stream doc = Inr (target_arts, target_smp_arts)"
    by (cases "match_index api stream doc") (auto simp: match_step_def)
  obtain e results1 where
    ar: "add_results art_smp_uris target_smp_arts (from_before results) = (e, results1)"
    by (cases "add_results art_smp_uris target_smp_arts (from_before results)")
  from assms mi ar have "e = None" and "r = as_read (add_shared target_arts results1)"
    and "r' = add_shared target_arts results1"
    by (cases e; simp add: match_step_def)+
  with mi ar that show thesis by blast
qed

lemma match_index_success:
  assumes "match_index api stream doc = Inr (target_arts, target_smp_arts)"
  shows "target_arts_of stream (find_all (by_name ''input-output-map'') doc) = Inr target_arts"
    and "\<forall>s l. target_smp_arts s = Some l \<longrightarrow> set l \<subseteq> set target_arts"
proof -
  from assms show ta: "target_arts_of stream (find_all (by_name ''input-output-map'') doc) = Inr target_arts"
    by (auto simp: match_index_def split: sum.splits)
  from assms ta obtain batch where
    "index_arts (find_all (by_name ''art:artifact'') batch) target_arts Map.empty = Inr target_smp_arts"
    by (auto simp: match_index_def split: sum.splits)
  from index_arts_values[OF this] show "\<forall>s l. target_smp_arts s = Some l \<longrightarrow> set l \<subseteq> set target_arts"
    by simp
qed

subsection \<open>Which errors a call can end with\<close>

lemma get_attr_error: "get_attr t k = Inl e \<Longrightarrow> e = KeyError \<or> e = TypeError"
  by (cases t) (auto split: option.splits)

lemma subscript_error: "subscript r k = Inl e \<Longrightarrow> e = KeyError \<or> e = TypeError"
  by (cases r) (auto simp: subscript_def dest: get_attr_error)

lemma relation_of_error: "relation_of stream rel = Inl e \<Longrightarrow> e = KeyError \<or> e = TypeError"
  by (auto simp: relation_of_def split: sum.splits dest: subscript_error)

lemma target_arts_of_error:
  "target_arts_of stream rels = Inl e \<Longrightarrow> e = KeyError \<or> e = TypeError"
proof -
  assume "target_arts_of stream rels = Inl e"
  then have "map_err (relation_of stream) rels = Inl e"
    by (simp add: target_arts_of_filter split: sum.splits)
  from map_err_Inl[OF this] show ?thesis by (auto dest: relation_of_error)
qed

lemma api_get_error: "api_get api e = Inl err \<Longrightarrow> \<exists>m. err = TransportError m"
  by (auto simp: api_get_def split: sum.splits)

lemma index_art_error:
  "index_art art ts m = Inl e \<Longrightarrow> e = KeyError \<or> e = TypeError"
proof (induction ts arbitrary: m)
  case Nil
  then show ?case by simp
next
  case (Cons t ts)
  show ?case
  proof (cases "get_attr art ''uri''")
    case (Inl e')
    with Cons.prems get_attr_error[OF Inl] show ?thesis by simp
  next
    case (Inr u)
    show ?thesis
    proof (cases "strip_query u = uri t")
      case False
      with Cons.prems Inr have "index_art art ts m = Inl e" by simp
      from Cons.IH[OF this] show ?thesis .
    next
      case True
      show ?thesis
      proof (cases "subscript (find_tag (by_name ''sample'') (contents art)) ''uri''")
        case (Inl e')
        with Cons.prems Inr True subscript_error[OF Inl] show ?thesis by simp
      next
        case s: (Inr s)
        with Cons.prems Inr True have
          "index_art art ts (m(s \<mapsto> (case m s of None \<Rightarrow> [] | Some l \<Rightarrow> l) @ [t])) = Inl e"
          by simp
        from Cons.IH[OF this] show ?thesis .
      qed
    qed
  qed
qed

lemma index_arts_error:
  "index_arts arts ts m = Inl e \<Longrightarrow> e = KeyError \<or> e = TypeError"
proof (induction arts arbitrary: m)
  case Nil
  then show ?case by simp
next
  case (Cons a arts)
  show ?case
  proof (cases "index_art a ts m")
    case (Inl e')
    with Cons.prems index_art_error[OF Inl] show ?thesis by simp
  next
    case (Inr m1)
    with Cons.prems have "index_arts arts ts m1 = Inl e" by simp
    from Cons.IH[OF this] show ?thesis .
  qed
qed

lemma match_index_error:
  "match_index api stream doc = Inl e \<Longrightarrow> \<forall>msg. e \<noteq> RuntimeError msg"
  by (auto simp: match_index_def split: sum.splits
      dest: target_arts_of_error api_get_error index_arts_error)

lemma messages_differ: "misaligned_message a \<noteq> history_message n"
  by (simp add: misaligned_message_def history_message_def)

lemma match_step_error:
  assumes "match_step api stream art_smp_uris doc results = (Inl e, r')"
  shows "e \<noteq> RuntimeError (history_message n)"
proof (cases "match_index api stream doc")
  case (Inl e')
  with assms match_index_error[OF Inl] show ?thesis by (auto simp: match_step_def)
next
  case (Inr p)
  obtain target_arts target_smp_arts where p: "p = (target_arts, target_smp_arts)" by (cases p)
  obtain err results1 where
    ar: "add_results art_smp_uris target_smp_arts (from_before results) = (err, results1)"
    by (cases "add_results art_smp_uris target_smp_arts (from_before results)")
  from assms Inr p ar have "err = Some e" by (cases err) (simp_all add: match_step_def)
  with add_results_error ar obtain a where "e = RuntimeError (misaligned_message a)" by blast
  with messages_differ show ?thesis by simp
qed

lemma step_name_of_error: "step_name_of doc = Inl e \<Longrightarrow> e = AttributeError"
  by (auto simp: step_name_of_def split: option.splits)

lemma input_uris_of_error: "input_uris_of doc = Inl e \<Longrightarrow> e = KeyError \<or> e = TypeError"
proof -
  assume "input_uris_of doc = Inl e"
  from map_err_Inl[OF this[unfolded input_uris_of_def]] obtain x where
    x: "(case get_attr x ''uri'' of Inl e \<Rightarrow> Inl e | Inr u \<Rightarrow> Inr (strip_query u)) = Inl e"
    by blast
  then have "get_attr x ''uri'' = Inl e" by (cases "get_attr x ''uri''") simp_all
  from get_attr_error[OF this] show ?thesis .
qed

lemma prev_steps_of_error: "prev_steps_of doc = Inl e \<Longrightarrow> e = KeyError \<or> e = TypeError"
proof -
  assume "prev_steps_of doc = Inl e"
  from map_err_Inl[OF this[unfolded prev_steps_of_def]] show ?thesis
    by (auto dest: get_attr_error)
qed

lemma history_error_is_never_raised:
  "fst (get_artifacts_previous_step depth api ord dest_step stream art_smp_uris step_soup results)
     \<noteq> Inl (RuntimeError (history_message n))"
proof (induction depth arbitrary: step_soup)
  case 0
  show ?case by simp
next
  case (Suc depth)
  show ?case
  proof (cases "step_name_of step_soup")
    case (Inl e)
    with step_name_of_error[OF Inl] show ?thesis by simp
  next
    case name: (Inr step_name)
    show ?thesis
    proof (cases "step_name = dest_step")
      case True
      obtain out r' where m: "match_step api stream art_smp_uris step_soup results = (out, r')"
        by (cases "match_step api stream art_smp_uris step_soup results")
      with match_step_error[of api stream art_smp_uris step_soup results _ r' n] name True
      show ?thesis by (cases out) auto
    next
      case False
      show ?thesis
      proof (cases "input_uris_of step_soup")
        case (Inl e)
        with input_uris_of_error[OF Inl] name False show ?thesis by auto
      next
        case uris: (Inr input_uris)
        show ?thesis
        proof (cases "api_get api (Uris input_uris)")
          case (Inl e)
          with api_get_error[OF Inl] name False uris show ?thesis by auto
        next
          case batch: (Inr all_input_soup)
          show ?thesis
          proof (cases "prev_steps_of all_input_soup")
            case (Inl e)
            with prev_steps_of_error[OF Inl] name False uris batch show ?thesis by auto
          next
            case prev: (Inr prev_steps)
            show ?thesis
            proof (cases "ord prev_steps")
              case Nil
              with name False uris batch prev show ?thesis by simp
            next
              case (Cons step_uri rest)
              show ?thesis
              proof (cases "api_get api (Uri step_uri)")
                case (Inl e)
                with api_get_error[OF Inl] name False uris batch prev Cons show ?thesis by auto
              next
                case (Inr step_soup')
                with name False uris batch prev Cons Suc.IH[of step_soup'] show ?thesis by simp
              qed
            qed
          qed
        qed
      qed
    qed
  qed
qed

lemma returned_mapping_has_every_key:
  assumes "get_artifacts_previous_step depth api ord dest_step stream art_smp_uris step_soup results
             = (Inr (Some r), r')"
  shows "fst ` set art_smp_uris \<subseteq> dom r"
proof -
  from success_is_match_step[OF assms] obtain doc where
    "match_step api stream art_smp_uris doc results = (Inr (Some r), r')" by blast
  then obtain target_arts target_smp_arts results1 where
    ar: "add_results art_smp_uris target_smp_arts (from_before results) = (None, results1)" and
    r: "r = as_read (add_shared target_arts results1)"
    by (rule match_step_success)
  from add_results_dom[OF ar] add_shared_dom[of results1 target_arts] r show ?thesis
    by (auto simp: dom_as_read)
qed

lemma misaligned_artifact_is_named:
  assumes "step_name_of step_soup = Inr dest_step"
    and "match_index api stream step_soup = Inr (target_arts, target_smp_arts)"
    and "(a, s) \<in> set art_smp_uris" and "target_smp_arts s = None"
  shows "\<exists>a' s'. (a', s') \<in> set art_smp_uris \<and> target_smp_arts s' = None \<and>
           fst (get_artifacts_previous_step (Suc depth) api ord dest_step stream art_smp_uris
                  step_soup results) = Inl (RuntimeError (misaligned_message a'))"
proof -
  obtain err results1 where
    ar: "add_results art_smp_uris target_smp_arts (from_before results) = (err, results1)"
    by (cases "add_results art_smp_uris target_smp_arts (from_before results)")
  from add_results_missing[of a s art_smp_uris target_smp_arts "from_before results"] assms(3,4) ar
  obtain e where e: "err = Some e" by auto
  from add_results_error[OF ar[unfolded e]] obtain a' s' where
    "(a', s') \<in> set art_smp_uris" "target_smp_arts s' = None"
    "e = RuntimeError (misaligned_message a')" by blast
  with assms(1,2) ar e show ?thesis by (auto simp: match_step_def)
qed

text \<open>When no hydrated input has a parent process, the call ends without a value.\<close>

lemma no_parent_process_returns_None:
  assumes "iterates_the_set ord"
    and "step_name_of step_soup = Inr step_name" and "step_name \<noteq> dest_step"
    and "input_uris_of step_soup = Inr input_uris"
    and "api_get api (Uris input_uris) = Inr all_input_soup"
    and "find_all (by_name ''parent-process'') all_input_soup = []"
  shows "get_artifacts_previous_step (Suc depth) api ord dest_step stream art_smp_uris step_soup
           results = (Inr None, results)"
proof -
  from assms(1) have "set (ord []) = {}" unfolding iterates_the_set_def by (metis list.set(1))
  then have "ord [] = []" by simp
  moreover from assms(6) have "prev_steps_of all_input_soup = Inr []"
    by (simp add: prev_steps_of_def)
  ultimately show ?thesis using assms(2-5) by simp
qed

subsection \<open>The IO map builder\<close>










lemma map_loop_unbound:
  "\<exists>rel \<in> set ios. is_per_input rel \<Longrightarrow>
   \<exists>e. map_loop api True True ios None None m = Inl e \<and>
       (e = UnboundLocalError \<or> e = KeyError \<or> e = TypeError)"
proof (induction ios arbitrary: m)
  case Nil
  then show ?case by simp
next
  case (Cons rel rest)
  show ?case
  proof (cases "subscript (find_tag (by_name ''output'') (contents rel)) ''output-generation-type''")
    case (Inl e)
    then have "e = KeyError \<or> e = TypeError"
      by (auto simp: subscript_def split: option.splits elim: get_attr.elims)
    with Inl show ?thesis by simp
  next
    case (Inr gen)
    show ?thesis
    proof (cases "gen = ''PerInput''")
      case False
      with Inr have "\<not> is_per_input rel" by (simp add: is_per_input_def)
      with Cons.prems have "\<exists>r \<in> set rest. is_per_input r" by auto
      from Cons.IH[OF this, of m] Inr False show ?thesis by simp
    next
      case True
      have sub: "e = KeyError \<or> e = TypeError" if "subscript r k = Inl e" for r k e
        using that by (auto simp: subscript_def split: option.splits elim: get_attr.elims)
      show ?thesis
      proof (cases "subscript (find_tag (by_name ''input'') (contents rel)) ''uri''")
        case (Inl e)
        with sub[OF Inl] Inr True show ?thesis by simp
      next
        case i: (Inr input_uri)
        show ?thesis
        proof (cases "subscript (find_tag (by_name ''output'') (contents rel)) ''uri''")
          case (Inl e)
          with sub[OF Inl] Inr True i show ?thesis by simp
        next
          case out: (Inr output_uri)
          with Inr True i show ?thesis by (simp add: enrich_def lookup_art_def)
        qed
      qed
    qed
  qed
qed







subsection \<open>Setting a field\<close>

lemma find_tag_None: "find_tag P ts = None \<longleftrightarrow> find_all P ts = []"
  by (simp add: find_tag_def split: list.splits)

lemma find_tag_Some: "find_tag P ts = Some t \<longleftrightarrow> (\<exists>rest. find_all P ts = t # rest)"
  by (simp add: find_tag_def split: list.splits)

lemma set_string_first_None: "set_string_first P s ts = None \<longleftrightarrow> find_all P ts = []"
  by (induction P ts rule: find_all.induct) (auto split: option.splits)

lemma set_string_first_head:
  "find_all P ts = Tag m a cs # rest \<Longrightarrow>
   \<exists>ts' rest'. set_string_first P s ts = Some ts' \<and> find_all P ts' = Tag m a [Text s] # rest'"
proof (induction P ts arbitrary: rest rule: find_all.induct)
  case (1 P)
  then show ?case by simp
next
  case (2 P t ts)
  then show ?case by auto
next
  case (3 P n a' cs' ts)
  show ?case
  proof (cases "P n a'")
    case True
    with "3.prems" show ?thesis by auto
  next
    case False
    show ?thesis
    proof (cases "find_all P cs'")
      case Nil
      with False "3.prems" have "find_all P ts = Tag m a cs # rest" by simp
      from "3.IH"(2)[OF this] obtain ts' rest' where
        "set_string_first P s ts = Some ts'" "find_all P ts' = Tag m a [Text s] # rest'" by blast
      moreover from Nil have "set_string_first P s cs' = None" by (simp add: set_string_first_None)
      ultimately show ?thesis using False Nil by simp
    next
      case (Cons x xs)
      with False "3.prems" have "find_all P cs' = Tag m a cs # xs" by simp
      from "3.IH"(1)[OF this] obtain cs'' rest' where
        "set_string_first P s cs' = Some cs''" "find_all P cs'' = Tag m a [Text s] # rest'" by blast
      with False show ?thesis by simp
    qed
  qed
qed

lemma insert_after_first_find_all:
  "insert_after_first Q new ts = Some ts' \<Longrightarrow> find_all P ts = [] \<Longrightarrow>
   find_all P ts' = find_all P [new]"
proof (induction Q new ts arbitrary: ts' rule: insert_after_first.induct)
  case (1 Q new)
  then show ?case by simp
next
  case (2 Q new t ts)
  then show ?case by auto
next
  case (3 Q new n a cs ts)
  from "3.prems"(2) have no: "\<not> P n a" "find_all P cs = []" "find_all P ts = []"
    by (auto split: if_splits)
  show ?case
  proof (cases "Q n a")
    case True
    with "3.prems"(1) have "ts' = Tag n a cs # new # ts" by simp
    with no show ?thesis by (cases new) simp_all
  next
    case False
    show ?thesis
    proof (cases "insert_after_first Q new cs")
      case (Some cs')
      with False "3.prems"(1) have ts': "ts' = Tag n a cs' # ts" by simp
      from "3.IH"(1)[OF False Some no(2)] have "find_all P cs' = find_all P [new]" .
      with ts' no show ?thesis by simp
    next
      case None
      with False "3.prems"(1) obtain ts'' where
        r: "insert_after_first Q new ts = Some ts''" and ts': "ts' = Tag n a cs # ts''"
        by auto
      from "3.IH"(2)[OF False None r no(3)] have "find_all P ts'' = find_all P [new]" .
      with ts' no show ?thesis by simp
    qed
  qed
qed

lemma insert_after_first_Some:
  "find_all Q ts \<noteq> [] \<Longrightarrow> \<exists>ts'. insert_after_first Q new ts = Some ts'"
  by (induction Q ts rule: find_all.induct) (auto split: option.splits if_splits)

lemma set_udf_new_field:
  assumes none: "find_tag (by_attr ''name'' n) art = None"
    and smp: "find_tag (by_name ''sample'') art \<noteq> None"
  shows "\<exists>art'. set_udf str art (n, v) = Inr art' \<and>
           find_all (by_attr ''name'' n) art' =
             [Tag ''udf:field'' [(''name'', n), (''type'', udf_type_of v)] [Text (str v)]]"
proof -
  let ?new = "Tag ''udf:field'' [(''name'', n), (''type'', udf_type_of v)] [Text (str v)]"
  from smp have "find_all (by_name ''sample'') art \<noteq> []" by (simp add: find_tag_None)
  from insert_after_first_Some[OF this] obtain art' where
    ins: "insert_after_first (by_name ''sample'') ?new art = Some art'" by blast
  from none have "find_all (by_attr ''name'' n) art = []" by (simp add: find_tag_None)
  from insert_after_first_find_all[OF ins this]
  have "find_all (by_attr ''name'' n) art' = [?new]" by (simp add: by_attr_def)
  with none ins show ?thesis by (simp add: set_udf_def)
qed

lemma set_udf_existing_field:
  assumes some: "find_tag (by_attr ''name'' n) art = Some (Tag tag_name attrs cs)"
  shows "\<exists>art'. set_udf str art (n, v) = Inr art' \<and>
           find_tag (by_attr ''name'' n) art' = Some (Tag tag_name attrs [Text (str v)])"
proof -
  from some obtain rest where "find_all (by_attr ''name'' n) art = Tag tag_name attrs cs # rest"
    by (auto simp: find_tag_Some)
  from set_string_first_head[OF this, of "str v"] obtain art' rest' where
    "set_string_first (by_attr ''name'' n) (str v) art = Some art'"
    "find_all (by_attr ''name'' n) art' = Tag tag_name attrs [Text (str v)] # rest'" by blast
  with some show ?thesis by (simp add: set_udf_def find_tag_def)
qed

lemma a_second_value_keeps_the_first_type:
  assumes "find_tag (by_attr ''name'' n) art = None"
    and "find_tag (by_name ''sample'') art \<noteq> None"
  shows "\<exists>art'. set_udfs str art [(n, v1), (n, v2)] = Inr art' \<and>
           find_tag (by_attr ''name'' n) art' =
             Some (Tag ''udf:field'' [(''name'', n), (''type'', udf_type_of v1)] [Text (str v2)])"
proof -
  from set_udf_new_field[OF assms, of str v1] obtain art1 where
    one: "set_udf str art (n, v1) = Inr art1" and
    "find_all (by_attr ''name'' n) art1 =
       [Tag ''udf:field'' [(''name'', n), (''type'', udf_type_of v1)] [Text (str v1)]]"
    by blast
  then have "find_tag (by_attr ''name'' n) art1 =
       Some (Tag ''udf:field'' [(''name'', n), (''type'', udf_type_of v1)] [Text (str v1)])"
    by (simp add: find_tag_def)
  from set_udf_existing_field[OF this, of str v2] one show ?thesis by auto
qed

subsection \<open>Runs in the small laboratory\<close>

lemmas run_defs = lab_defs doc_defs resolver_defs eval_nat_numeral

lemma run_S_input:
  "fst (get_artifacts_previous_step 10 (store_api lab) id ''S'' ''input''
          [(''O1'', ''sample1''), (''O2'', ''sample2'')] step_S Map.empty)
   = Inr (Some ancestors_S)"
  by (simp add: ancestors_S_def run_defs fun_eq_iff)

lemma run_C_forward:
  "fst (get_artifacts_previous_step 10 (store_api lab) id ''S'' ''output''
          [(''C1'', ''sample1''), (''C2'', ''sample2'')] step_C Map.empty)
   = Inr (Some ancestors_C)"
  by (simp add: ancestors_C_def run_defs fun_eq_iff)

lemma run_C_backward:
  "fst (get_artifacts_previous_step 10 (store_api lab) rev ''S'' ''output''
          [(''C1'', ''sample1''), (''C2'', ''sample2'')] step_C Map.empty)
   = Inr (Some ancestors_C)"
  by (simp add: ancestors_C_def run_defs fun_eq_iff)

lemma run_P_output:
  "fst (get_artifacts_previous_step 10 (store_api lab) id ''P'' ''output''
          [(''X'', ''sample1'')] step_P Map.empty)
   = Inr (Some ancestors_P)"
  by (simp add: ancestors_P_def run_defs fun_eq_iff)

lemma run_D_backward:
  "fst (get_artifacts_previous_step 10 (store_api lab) rev ''S'' ''output''
          [(''D1'', ''sample1''), (''D2'', ''sample2'')] step_D Map.empty)
   = Inr (Some ancestors_D)"
  by (simp add: ancestors_D_def run_defs fun_eq_iff)

lemma run_D_forward:
  "fst (get_artifacts_previous_step 10 (store_api lab) id ''S'' ''output''
          [(''D1'', ''sample1''), (''D2'', ''sample2'')] step_D Map.empty)
   = Inl (RuntimeError (misaligned_message ''D2''))"
  by (simp add: run_defs)

lemma parents_of_C:
  "input_uris_of step_C = Inr [''B1'', ''O2''] \<and>
   map_sum id prev_steps_of (api_get (store_api lab) (Uris [''B1'', ''O2'']))
     = Inr (Inr [''PQ'', ''PS''])"
  by (simp add: run_defs)

lemma parents_of_D:
  "input_uris_of step_D = Inr [''O1r'', ''O2''] \<and>
   map_sum id prev_steps_of (api_get (store_api lab) (Uris [''O1r'', ''O2'']))
     = Inr (Inr [''PS2'', ''PS''])"
  by (simp add: run_defs)

lemma two_executions_of_S:
  "map_sum id step_name_of (api_get (store_api lab) (Uri ''PS2'')) = Inr (Inr ''S'') \<and>
   map_sum id step_name_of (api_get (store_api lab) (Uri ''PS'')) = Inr (Inr ''S'')"
  by (simp add: run_defs)

text \<open>
  From step C, asked for step Q, which sample 1 alone went through: the order in which
  the set yields the two parent processes decides between a dictionary and \<^verbatim>\<open>None\<close>.
\<close>

lemma run_C_to_Q:
  "fst (get_artifacts_previous_step 10 (store_api lab) id ''Q'' ''output''
          [(''C1'', ''sample1'')] step_C Map.empty)
     = Inr (Some [''C1'' \<mapsto> [PreviousStepArtifact ''B1'' ''Analyte'' ''PerInput'']]) \<and>
   fst (get_artifacts_previous_step 10 (store_api lab) rev ''Q'' ''output''
          [(''C1'', ''sample1'')] step_C Map.empty)
     = Inr None"
  by (simp add: run_defs fun_eq_iff)

text \<open>
  An originating artifact that is itself called \<^verbatim>\<open>shared\<close>: its list is the list of its
  sample, which O1 holds too, and the two ResultFile entries are appended to that one list.
\<close>

lemma run_S_shared_key:
  "map_sum id (map_option (\<lambda>r. (r ''O1'', r ''shared'')))
     (fst (get_artifacts_previous_step 10 (store_api lab) id ''S'' ''input''
             [(''shared'', ''sample1''), (''O1'', ''sample1'')] step_S Map.empty))
   = Inr (Some (Some [PreviousStepArtifact ''A1'' ''Analyte'' ''PerInput'',
                      PreviousStepArtifact ''A1'' ''ResultFile'' ''PerAllInputs'',
                      PreviousStepArtifact ''A1'' ''ResultFile'' ''PerAllInputs'',
                      PreviousStepArtifact ''A2'' ''ResultFile'' ''PerAllInputs''],
                Some [PreviousStepArtifact ''A1'' ''Analyte'' ''PerInput'',
                      PreviousStepArtifact ''A1'' ''ResultFile'' ''PerAllInputs'',
                      PreviousStepArtifact ''A1'' ''ResultFile'' ''PerAllInputs'',
                      PreviousStepArtifact ''A2'' ''ResultFile'' ''PerAllInputs'']))"
  by (simp add: run_defs)

text \<open>
  At step P the list under \<^verbatim>\<open>shared\<close> holds L, whose generation kind is
  \<^verbatim>\<open>PerReagentLabel\<close>, and not P, whose generation kind is \<^verbatim>\<open>PerAllInputs\<close>: line 763
  selects by the output type.
\<close>

lemma shared_is_selected_by_type:
  "fst (get_artifacts_previous_step 10 (store_api lab) id ''P'' ''output''
          [(''X'', ''sample1'')] step_P Map.empty)
     = Inr (Some ancestors_P) \<and>
   shared_list ancestors_P = [PreviousStepArtifact ''L'' ''ResultFile'' ''PerReagentLabel''] \<and>
   ancestors_P ''X'' = Some [PreviousStepArtifact ''P'' ''Analyte'' ''PerAllInputs'',
                             PreviousStepArtifact ''P'' ''Analyte'' ''PerAllInputs'',
                             PreviousStepArtifact ''L'' ''ResultFile'' ''PerReagentLabel'']"
  using run_P_output by (simp add: ancestors_P_def shared_list_def)

lemma step_S_name: "step_name_of step_S = Inr ''S''"
  by (simp add: run_defs)

lemma step_P_name: "step_name_of step_P = Inr ''P''"
  by (simp add: run_defs)

lemma ten: "(10::nat) = Suc 9"
  by simp

lemmas map_defs = get_artifact_map_def get_artifacts_def artifact_of_def opt_attr_def location_of_def
  udf_fields_of_def by_uri_def lookup_art_def enrich_def is_per_input_def per_input_relations_def
  uri_pair_of_def entries_def hashable_artifact.truncate_def


lemma map_S_fail:
  "get_artifact_map (store_api lab) step_S True True = Inl UnboundLocalError"
  by (simp add: map_defs lab_defs doc_defs)



lemma udf_type_of_values:
  "udf_type_of (PyBool b) = ''Boolean'' \<and>
   udf_type_of (PyInt i) = ''Numeric'' \<and>
   udf_type_of (PyFloat f) = ''Numeric'' \<and>
   udf_type_of (PyStr s) = ''String'' \<and>
   udf_type_of (PyObject ob) = ''String''"
  by (simp add: udf_type_of_def)

section \<open>The claims\<close>

text \<open>
  C1. A call in which the history of the traced samples never has a step named
  \<^verbatim>\<open>dest_step\<close> is claimed to raise the history-exhausted error. The run: the resolver
  is asked for a step T that no sample went through, starting at step C. It walks back
  from C to Q to S, finds no parent process on the inputs of S, and the call returns
  \<^verbatim>\<open>None\<close>: no error is raised and the dictionary is untouched.
\<close>

theorem exhausted_history_returns_None:
  "get_artifacts_previous_step 10 (store_api lab) id ''T'' ''output''
     [(''C1'', ''sample1''), (''C2'', ''sample2'')] step_C Map.empty
   = (Inr None, Map.empty)"
  by (simp add: run_defs)

text \<open>
  C2. A call in which the hydrated inputs of some level have two distinct parent
  processes is claimed to fail with a consistency error, and not to follow one of them.
  The method's docstring promises a RuntimeError when the samples went through
  \<^verbatim>\<open>dest_step\<close> at different times, and the comment at lines 709-710 says that every
  previous step is recursed into; the loop of lines 712-715 returns from its first
  iteration. The run: the inputs of step D, O1r and O2, have the parent processes PS2 and
  PS, two executions of S. When the set yields PS first, the call returns a dictionary
  built at PS alone, in which D1 has the ancestor O1 of the earlier execution; when it
  yields PS2 first, the call raises for D2.
\<close>

theorem one_of_two_parent_processes_is_followed:
  "input_uris_of step_D = Inr [''O1r'', ''O2''] \<and>
   map_sum id prev_steps_of (api_get (store_api lab) (Uris [''O1r'', ''O2'']))
     = Inr (Inr [''PS2'', ''PS'']) \<and>
   map_sum id step_name_of (api_get (store_api lab) (Uri ''PS2'')) = Inr (Inr ''S'') \<and>
   map_sum id step_name_of (api_get (store_api lab) (Uri ''PS'')) = Inr (Inr ''S'') \<and>
   fst (get_artifacts_previous_step 10 (store_api lab) rev ''S'' ''output''
          [(''D1'', ''sample1''), (''D2'', ''sample2'')] step_D Map.empty)
     = Inr (Some ancestors_D) \<and>
   fst (get_artifacts_previous_step 10 (store_api lab) id ''S'' ''output''
          [(''D1'', ''sample1''), (''D2'', ''sample2'')] step_D Map.empty)
     = Inl (RuntimeError (misaligned_message ''D2''))"
  using parents_of_D two_executions_of_S run_D_backward run_D_forward by simp

text \<open>
  C3. Two calls in succession with the same arguments and \<^verbatim>\<open>results\<close> left at its default
  are claimed to return the same mapping. The run: the first call returns two entries
  under \<^verbatim>\<open>shared\<close>, the second one four.
\<close>

theorem default_results_grow_between_calls:
  "map_sum id (map_option shared_list)
     (fst (two_default_calls 10 (store_api lab) id ''S'' ''input''
             [(''O1'', ''sample1''), (''O2'', ''sample2'')] step_S))
     = Inr (Some [PreviousStepArtifact ''A1'' ''ResultFile'' ''PerAllInputs'',
                  PreviousStepArtifact ''A2'' ''ResultFile'' ''PerAllInputs'']) \<and>
   map_sum id (map_option shared_list)
     (snd (two_default_calls 10 (store_api lab) id ''S'' ''input''
             [(''O1'', ''sample1''), (''O2'', ''sample2'')] step_S))
     = Inr (Some [PreviousStepArtifact ''A1'' ''ResultFile'' ''PerAllInputs'',
                  PreviousStepArtifact ''A2'' ''ResultFile'' ''PerAllInputs'',
                  PreviousStepArtifact ''A1'' ''ResultFile'' ''PerAllInputs'',
                  PreviousStepArtifact ''A2'' ''ResultFile'' ''PerAllInputs''])"
  by (simp add: two_default_calls_def run_defs shared_list_def)

text \<open>
  C4. For step S (inputs A1 and A2, the PerInput Analytes O1 and O2, the PerAllInputs
  ResultFile R), stream \<^verbatim>\<open>input\<close> and the mapping of O1 to sample1 and O2 to sample2, the
  call at S's own document is claimed to return O1 with A1, O2 with A2 and \<^verbatim>\<open>shared\<close>
  with R. The docstring (lines 668-669) and the comment at lines 760-761 say that the
  shared outputs go under \<^verbatim>\<open>shared\<close>. The run: line 721 reads the URI on the side of
  the stream for every relation, so the two relations of R are entered as A1 and A2 with
  the type and generation kind of R. They are listed under \<^verbatim>\<open>shared\<close> and once more
  under O1 and O2, and R is nowhere in the dictionary.
\<close>

theorem scenario_S_result:
  "fst (get_artifacts_previous_step 10 (store_api lab) id ''S'' ''input''
          [(''O1'', ''sample1''), (''O2'', ''sample2'')] step_S Map.empty)
     = Inr (Some ancestors_S) \<and>
   map_option (map uri) (ancestors_S ''O1'') = Some [''A1'', ''A1''] \<and>
   map_option (map uri) (ancestors_S ''O2'') = Some [''A2'', ''A2''] \<and>
   map_option (map uri) (ancestors_S ''shared'') = Some [''A1'', ''A2''] \<and>
   dom ancestors_S = {''O1'', ''O2'', ''shared''}"
  using run_S_input by (auto simp: ancestors_S_def)

text \<open>
  C5 (as amended). At the match step, for either stream, the list under \<^verbatim>\<open>shared\<close> is
  what was there before followed by the entries the call appends (when no supplied
  artifact is itself called \<^verbatim>\<open>shared\<close>, what was there before is what the dictionary
  held on entry). Among the appended entries, those of the relations whose output is a
  PerAllInputs ResultFile are all there, one for each relation, in document order and
  with repetitions; and no appended entry has the generation kind \<^verbatim>\<open>PerInput\<close>. Here
  \<open>rels\<close> is what lines 721-724 read from the relations of the step.
\<close>

theorem shared_key_gets_an_entry_for_each_shared_result_file_relation:
  assumes "step_name_of step_soup = Inr dest_step"
    and "get_artifacts_previous_step (Suc depth) api ord dest_step stream art_smp_uris step_soup results
           = (Inr (Some r), r')"
  shows "\<exists>rels base appended.
           map_err (relation_of stream) (find_all (by_name ''input-output-map'') step_soup) = Inr rels \<and>
           shared_list r = base @ appended \<and>
           (''shared'' \<notin> fst ` set art_smp_uris \<longrightarrow> base = shared_list (as_read results)) \<and>
           filter (\<lambda>t. generation_type t = ''PerAllInputs'' \<and> art_type t = ''ResultFile'') appended
             = filter (\<lambda>t. generation_type t = ''PerAllInputs'' \<and> art_type t = ''ResultFile'') rels \<and>
           (\<forall>t \<in> set appended. generation_type t \<noteq> ''PerInput'')"
proof -
  let ?rf = "\<lambda>t. art_type t = ''ResultFile''"
  let ?shared_rf = "\<lambda>t. generation_type t = ''PerAllInputs'' \<and> art_type t = ''ResultFile''"
  let ?skip = "\<lambda>t. generation_type t = ''PerInput'' \<and> art_type t = ''ResultFile''"
  from assms(1,2) have "match_step api stream art_smp_uris step_soup results = (Inr (Some r), r')"
    by simp
  then obtain target_arts target_smp_arts results1 where
    mi: "match_index api stream step_soup = Inr (target_arts, target_smp_arts)" and
    ar: "add_results art_smp_uris target_smp_arts (from_before results) = (None, results1)" and
    r: "r = as_read (add_shared target_arts results1)"
    by (rule match_step_success)
  from match_index_success(1)[OF mi] obtain rels where
    rels: "map_err (relation_of stream) (find_all (by_name ''input-output-map'') step_soup) = Inr rels"
    and tas: "target_arts = filter (\<lambda>t. \<not> ?skip t) rels"
    by (auto simp: target_arts_of_filter split: sum.splits)
  have sl: "shared_list r = shared_list (as_read results1) @ filter ?rf target_arts"
    using r by (simp only: shared_list_add_shared)
  have base: "shared_list (as_read results1) = shared_list (as_read results)"
    if "''shared'' \<notin> fst ` set art_smp_uris"
  proof -
    from add_results_other[OF that, of target_smp_arts "from_before results"] ar
    have "results1 ''shared'' = from_before results ''shared''" by simp
    then have "as_read results1 ''shared'' = as_read (from_before results) ''shared''"
      by (simp add: as_read_def)
    then show ?thesis by (simp add: shared_list_def as_read_from_before)
  qed
  have sel: "filter ?shared_rf (filter ?rf target_arts) = filter ?shared_rf rels"
    unfolding tas filter_filter by (rule filter_cong) auto
  have kept: "\<forall>t \<in> set (filter ?rf target_arts). generation_type t \<noteq> ''PerInput''"
    using tas by auto
  show ?thesis
  proof (intro exI conjI)
    show "map_err (relation_of stream) (find_all (by_name ''input-output-map'') step_soup) = Inr rels"
      by (rule rels)
    show "shared_list r = shared_list (as_read results1) @ filter ?rf target_arts"
      by (rule sl)
    show "''shared'' \<notin> fst ` set art_smp_uris \<longrightarrow>
            shared_list (as_read results1) = shared_list (as_read results)"
      using base by blast
    show "filter ?shared_rf (filter ?rf target_arts) = filter ?shared_rf rels"
      by (rule sel)
    show "\<forall>t \<in> set (filter ?rf target_arts). generation_type t \<noteq> ''PerInput''"
      by (rule kept)
  qed
qed

theorem shared_key_gets_an_entry_for_each_shared_result_file_relation_witness:
  "\<exists>rels base appended.
     map_err (relation_of ''input'') (find_all (by_name ''input-output-map'') step_S) = Inr rels \<and>
     shared_list ancestors_S = base @ appended \<and>
     (''shared'' \<notin> fst ` set [(''O1'', ''sample1''), (''O2'', ''sample2'')]
        \<longrightarrow> base = shared_list (as_read Map.empty)) \<and>
     filter (\<lambda>t. generation_type t = ''PerAllInputs'' \<and> art_type t = ''ResultFile'') appended
       = filter (\<lambda>t. generation_type t = ''PerAllInputs'' \<and> art_type t = ''ResultFile'') rels \<and>
     (\<forall>t \<in> set appended. generation_type t \<noteq> ''PerInput'')"
proof -
  have run: "get_artifacts_previous_step (Suc 9) (store_api lab) id ''S'' ''input''
       [(''O1'', ''sample1''), (''O2'', ''sample2'')] step_S Map.empty
     = (Inr (Some ancestors_S),
        snd (get_artifacts_previous_step (Suc 9) (store_api lab) id ''S'' ''input''
               [(''O1'', ''sample1''), (''O2'', ''sample2'')] step_S Map.empty))"
    by (simp only: prod_eq_iff fst_conv snd_conv run_S_input[unfolded ten] simp_thms)
  from shared_key_gets_an_entry_for_each_shared_result_file_relation [OF step_S_name run]
  show ?thesis .
qed

text \<open>
  C5 as stated fails: nothing in the method removes repetitions. Step S lists the one
  PerAllInputs ResultFile R under each of its two inputs; after the run from step C,
  which asks for the outputs of S, the list under \<^verbatim>\<open>shared\<close> holds R twice.
\<close>

theorem shared_repeats_an_artifact:
  "fst (get_artifacts_previous_step 10 (store_api lab) id ''S'' ''output''
          [(''C1'', ''sample1''), (''C2'', ''sample2'')] step_C Map.empty)
     = Inr (Some ancestors_C) \<and>
   shared_list ancestors_C = [PreviousStepArtifact ''R'' ''ResultFile'' ''PerAllInputs'',
                               PreviousStepArtifact ''R'' ''ResultFile'' ''PerAllInputs''] \<and>
   \<not> distinct (shared_list ancestors_C)"
  using run_C_forward by (simp add: ancestors_C_def shared_list_def)




text \<open>
  C7. Every supplied artifact is claimed either to be a key of the returned mapping or
  the call to raise. The run: asked for a step T that the samples never went through,
  the call at step S returns \<^verbatim>\<open>None\<close>, which is neither.
\<close>

theorem neither_a_key_nor_an_error:
  "fst (get_artifacts_previous_step 10 (store_api lab) id ''T'' ''input''
          [(''O1'', ''sample1'')] step_S Map.empty) = Inr None"
  by (simp add: run_defs)

text \<open>
  C8. \<^verbatim>\<open>set_artifact_udf\<close> is claimed to make a new field, typed after the value, when the
  record has no field of the given name, and to overwrite the text of the field when it
  has one. The comments at lines 616 and 619 say the same. Line 615 looks for the field
  with \<^verbatim>\<open>art.find(attrs={"name": udf.name})\<close>, which finds the first element of any kind
  with that name. The runs: on a record with a reagent label called Index and no field of
  that name, setting the field Index to \<^verbatim>\<open>True\<close> writes the text into the label and makes
  no field; on the same record with a field Index after the label, setting it to
  \<^verbatim>\<open>new\<close> writes into the label and leaves the field as it was.
\<close>

theorem a_reagent_label_is_taken_for_the_field:
  "find_all (by_name ''udf:field'') labelled_art = [] \<and>
   set_udf example_str labelled_art (''Index'', PyBool True)
     = Inr [Tag ''name'' [] [Text ''A1''],
            Tag ''sample'' [(''uri'', ''sample1'')] [],
            Tag ''reagent-label'' [(''name'', ''Index'')] [Text ''True'']] \<and>
   find_all (by_name ''udf:field'') labelled_art_with_field
     = [Tag ''udf:field'' [(''name'', ''Index''), (''type'', ''String'')] [Text ''old'']] \<and>
   set_udf example_str labelled_art_with_field (''Index'', PyStr ''new'')
     = Inr [Tag ''name'' [] [Text ''A1''],
            Tag ''sample'' [(''uri'', ''sample1'')] [],
            Tag ''reagent-label'' [(''name'', ''Index'')] [Text ''new''],
            Tag ''udf:field'' [(''name'', ''Index''), (''type'', ''String'')] [Text ''old'']]"
  by (simp add: set_udf_def labelled_art_def labelled_art_with_field_def example_str_def doc_defs)

text \<open>
  C9. At the match step a relation whose output is a PerInput ResultFile is skipped: with
  \<open>rels\<close> what lines 721-724 read from the relations of the step, the artifacts kept for
  matching are all of \<open>rels\<close> but the PerInput ResultFiles, and every list of the returned
  dictionary (the ancestors of an artifact, or \<^verbatim>\<open>shared\<close>) holds kept artifacts only.
\<close>

theorem per_input_result_files_are_skipped:
  assumes "step_name_of step_soup = Inr dest_step"
    and "get_artifacts_previous_step (Suc depth) api ord dest_step stream art_smp_uris step_soup Map.empty
           = (Inr (Some r), r')"
  shows "\<exists>rels.
           map_err (relation_of stream) (find_all (by_name ''input-output-map'') step_soup) = Inr rels \<and>
           target_arts_of stream (find_all (by_name ''input-output-map'') step_soup) =
             Inr (filter (\<lambda>t. \<not> (generation_type t = ''PerInput'' \<and> art_type t = ''ResultFile'')) rels) \<and>
           (\<forall>k l. r k = Some l \<longrightarrow>
              set l \<subseteq> {t \<in> set rels. \<not> (generation_type t = ''PerInput'' \<and> art_type t = ''ResultFile'')})"
proof -
  let ?skip = "\<lambda>t. generation_type t = ''PerInput'' \<and> art_type t = ''ResultFile''"
  from assms have "match_step api stream art_smp_uris step_soup Map.empty = (Inr (Some r), r')"
    by simp
  then obtain target_arts target_smp_arts results1 where
    mi: "match_index api stream step_soup = Inr (target_arts, target_smp_arts)" and
    ar: "add_results art_smp_uris target_smp_arts (from_before Map.empty) = (None, results1)" and
    r: "r = as_read (add_shared target_arts results1)"
    by (rule match_step_success)
  note ta = match_index_success(1)[OF mi] and idx = match_index_success(2)[OF mi]
  from ta obtain rels where
    rels: "map_err (relation_of stream) (find_all (by_name ''input-output-map'') step_soup) = Inr rels"
    and tas: "target_arts = filter (\<lambda>t. \<not> ?skip t) rels"
    by (auto simp: target_arts_of_filter split: sum.splits)
  have r1: "\<forall>k ob l. results1 k = Some (ob, l) \<longrightarrow> set l \<subseteq> set target_arts"
  proof (intro allI impI)
    fix k ob l
    assume "results1 k = Some (ob, l)"
    from add_results_values[OF ar this] have "l \<in> ran target_smp_arts"
      by (simp add: from_before_empty)
    then obtain s where "target_smp_arts s = Some l" by (auto simp: ran_def)
    with idx show "set l \<subseteq> set target_arts" by blast
  qed
  note within = add_shared_within[OF r1 subset_refl]
  have "set l \<subseteq> set target_arts" if "r k = Some l" for k l
  proof -
    from that r obtain ob where "add_shared target_arts results1 k = Some (ob, l)"
      by (auto simp: as_read_Some)
    with within show ?thesis by blast
  qed
  with rels ta tas show ?thesis by auto
qed

theorem per_input_result_files_are_skipped_witness:
  "\<exists>rels.
     map_err (relation_of ''output'') (find_all (by_name ''input-output-map'') step_P) = Inr rels \<and>
     target_arts_of ''output'' (find_all (by_name ''input-output-map'') step_P) =
       Inr (filter (\<lambda>t. \<not> (generation_type t = ''PerInput'' \<and> art_type t = ''ResultFile'')) rels) \<and>
     (\<forall>k l. ancestors_P k = Some l \<longrightarrow>
        set l \<subseteq> {t \<in> set rels. \<not> (generation_type t = ''PerInput'' \<and> art_type t = ''ResultFile'')})"
proof -
  have run: "get_artifacts_previous_step (Suc 9) (store_api lab) id ''P'' ''output''
       [(''X'', ''sample1'')] step_P Map.empty
     = (Inr (Some ancestors_P),
        snd (get_artifacts_previous_step (Suc 9) (store_api lab) id ''P'' ''output''
               [(''X'', ''sample1'')] step_P Map.empty))"
    by (simp only: prod_eq_iff fst_conv snd_conv run_P_output[unfolded ten] simp_thms)
  from per_input_result_files_are_skipped [OF step_P_name run] show ?thesis .
qed

text \<open>
  C10. With \<^verbatim>\<open>uri_only=True\<close> and \<^verbatim>\<open>container_info=True\<close>, on a step with at least one
  relation of generation kind \<^verbatim>\<open>PerInput\<close>, \<^verbatim>\<open>get_artifact_map\<close> raises: the lookup tables
  it reads were never made (or a relation before lacks what is read from it).
\<close>

theorem uri_only_with_container_info_fails:
  assumes "\<exists>rel \<in> set (find_all (by_name ''input-output-map'') step_soup). is_per_input rel"
  shows "\<exists>e. get_artifact_map api step_soup True True = Inl e \<and>
             (e = UnboundLocalError \<or> e = KeyError \<or> e = TypeError)"
  using map_loop_unbound[OF assms, of api "[]"] by (simp add: get_artifact_map_def)

theorem uri_only_with_container_info_fails_witness:
  "(\<exists>e. get_artifact_map (store_api lab) step_S True True = Inl e \<and>
        (e = UnboundLocalError \<or> e = KeyError \<or> e = TypeError)) \<and>
   get_artifact_map (store_api lab) step_S True True = Inl UnboundLocalError"
proof -
  have "\<exists>rel \<in> set (find_all (by_name ''input-output-map'') step_S). is_per_input rel"
    by (simp add: map_defs lab_defs doc_defs)
  from uri_only_with_container_info_fails [OF this, of "store_api lab"] map_S_fail
  show ?thesis by blast
qed

end
